theory Spec2Isabelle
  imports Complex_Main "HOL-Library.AList"
begin

section \<open>The relationship graph view\<close>

text \<open>
  The development embeds \<^verbatim>\<open>src/components/visualization/GraphView.tsx\<close>: the data the
  component receives, the working copies it makes, the force simulation it drives, and
  the handlers for fetching, selecting, dragging and zooming.

  JavaScript numbers are modelled as exact reals; a result that is not a finite number
  (\<^verbatim>\<open>NaN\<close>, an infinity) is \<open>None\<close> in a \<open>real option\<close>. The React properties
  \<^verbatim>\<open>investigationId\<close>, \<^verbatim>\<open>width\<close> and \<^verbatim>\<open>height\<close> are fixed for the life of a component, and
  the state updates of one handler are committed together before effects run.
\<close>

subsection \<open>Values of the fetched graph\<close>

text \<open>
  \<^verbatim>\<open>response.data\<close> is parsed JSON, so a property value (\<^verbatim>\<open>Record<string, any>\<close>) is a
  JSON value. An absent member reads as \<^verbatim>\<open>undefined\<close>, modelled as \<open>None\<close>.
\<close>

datatype json =
    JNull
  | JBool bool
  | JNum real
  | JStr string
  | JArr "json list"
  | JObj "(string \<times> json) list"

text \<open>Truthiness of a JSON value, as \<^verbatim>\<open>||\<close> tests it.\<close>

fun truthy :: "json \<Rightarrow> bool" where
  "truthy JNull = False"
| "truthy (JBool b) = b"
| "truthy (JNum r) = (r \<noteq> 0)"
| "truthy (JStr s) = (s \<noteq> [])"
| "truthy (JArr vs) = True"
| "truthy (JObj kvs) = True"

text \<open>
  \<^verbatim>\<open>v?.strength\<close>: \<^verbatim>\<open>undefined\<close> when \<open>v\<close> is \<^verbatim>\<open>undefined\<close> or \<^verbatim>\<open>null\<close>, and when \<open>v\<close> has no
  such member (numbers, booleans, strings and arrays have none). A parsed object keeps the
  last of several members of one name.
\<close>

fun strength_of :: "json option \<Rightarrow> json option" where
  "strength_of (Some (JObj kvs)) = map_of (rev kvs) ''strength''"
| "strength_of _ = None"

text \<open>\<^verbatim>\<open>v || 1\<close>\<close>

definition or_one :: "json option \<Rightarrow> json" where
  "or_one v = (case v of None \<Rightarrow> JNum 1 | Some j \<Rightarrow> if truthy j then j else JNum 1)"

text \<open>
  The numeric conversion that \<^verbatim>\<open>*\<close> applies to its operand. The conversion of strings,
  arrays and objects is the language's own (a number grammar, and \<^verbatim>\<open>toString\<close>); it is
  the parameter \<open>conv\<close>.
\<close>

fun ToNumber :: "(json \<Rightarrow> real option) \<Rightarrow> json \<Rightarrow> real option" where
  "ToNumber conv JNull = Some 0"
| "ToNumber conv (JBool b) = Some (if b then 1 else 0)"
| "ToNumber conv (JNum r) = Some r"
| "ToNumber conv v = conv v"

definition times_two :: "real option \<Rightarrow> real option" where
  "times_two a = (case a of None \<Rightarrow> None | Some r \<Rightarrow> Some (r * 2))"

definition Math_sqrt :: "real option \<Rightarrow> real option" where
  "Math_sqrt a = (case a of None \<Rightarrow> None | Some r \<Rightarrow> if r < 0 then None else Some (sqrt r))"

record link_datum =
  link_source :: string
  link_target :: string
  link_type :: string
  link_properties :: "json option"

text \<open>
  The \<^verbatim>\<open>stroke-width\<close> accessor of a link line:
  \<^verbatim>\<open>Math.sqrt((d.properties?.strength || 1) * 2)\<close>. It reads only \<^verbatim>\<open>properties\<close>.
\<close>

definition stroke_width :: "(json \<Rightarrow> real option) \<Rightarrow> json option \<Rightarrow> real option" where
  "stroke_width conv props = Math_sqrt (times_two (ToNumber conv (or_one (strength_of props))))"

subsection \<open>Working copies in a store\<close>

text \<open>
  The effect copies the fetched arrays before the simulation touches them:
  \<^verbatim>\<open>graphData.nodes.map(n => ({ ...n }))\<close> and the same for links. Whether a write to a
  copy can reach the fetched data depends on which objects the copy shares with the
  original, so this part of the model keeps objects in a store. An address is an index
  into the store; an object is its list of own members in insertion order.
\<close>

type_synonym addr = nat

datatype val = Number real | String string | Null | Ref addr

type_synonym obj = "(string \<times> val) list"

type_synonym store = "obj list"

definition get_field :: "store \<Rightarrow> addr \<Rightarrow> string \<Rightarrow> val option" where
  "get_field h a k = (if a < length h then map_of (h ! a) k else None)"

text \<open>\<^verbatim>\<open>o.k = v\<close>: an existing member keeps its place, a new one is added last.\<close>

definition set_field :: "store \<Rightarrow> addr \<Rightarrow> string \<Rightarrow> val \<Rightarrow> store" where
  "set_field h a k v = (if a < length h then h[a := AList.update k v (h ! a)] else h)"

text \<open>
  \<^verbatim>\<open>{ ...n }\<close>: a fresh object with the members of \<open>n\<close>. Each member value is copied as it
  is, so a member that is a reference still refers to the same object.
\<close>

definition spread :: "store \<Rightarrow> addr \<Rightarrow> addr \<times> store" where
  "spread h a = (length h, h @ [if a < length h then h ! a else []])"

text \<open>\<^verbatim>\<open>xs.map(n => ({ ...n }))\<close>\<close>

fun map_spread :: "store \<Rightarrow> addr list \<Rightarrow> addr list \<times> store" where
  "map_spread h [] = ([], h)"
| "map_spread h (a # as) =
     (case spread h a of (a', h1) \<Rightarrow>
        (case map_spread h1 as of (as', h2) \<Rightarrow> (a' # as', h2)))"

text \<open>Lines 105 and 106: the working \<^verbatim>\<open>nodes\<close> and \<^verbatim>\<open>links\<close> arrays.\<close>

definition copy_graph :: "store \<Rightarrow> addr list \<Rightarrow> addr list \<Rightarrow> (addr list \<times> addr list) \<times> store" where
  "copy_graph h ns ls =
     (case map_spread h ns of (ns', h1) \<Rightarrow>
        (case map_spread h1 ls of (ls', h2) \<Rightarrow> ((ns', ls'), h2)))"

text \<open>
  The simulation and the drag handlers assign members of the working objects only:
  \<^verbatim>\<open>index\<close>, \<^verbatim>\<open>x\<close>, \<^verbatim>\<open>y\<close>, \<^verbatim>\<open>vx\<close>, \<^verbatim>\<open>vy\<close>, \<^verbatim>\<open>fx\<close>, \<^verbatim>\<open>fy\<close> of \<^verbatim>\<open>nodes[i]\<close>, and \<^verbatim>\<open>index\<close>,
  \<^verbatim>\<open>source\<close>, \<^verbatim>\<open>target\<close> of \<^verbatim>\<open>links[i]\<close>. A write names the working array, the position in
  it, the member and the value.
\<close>

datatype mutation = NodeWrite nat string val | LinkWrite nat string val

fun apply_write :: "addr list \<Rightarrow> addr list \<Rightarrow> store \<Rightarrow> mutation \<Rightarrow> store" where
  "apply_write ns ls h (NodeWrite i k v) = (if i < length ns then set_field h (ns ! i) k v else h)"
| "apply_write ns ls h (LinkWrite i k v) = (if i < length ls then set_field h (ls ! i) k v else h)"

definition apply_writes :: "addr list \<Rightarrow> addr list \<Rightarrow> store \<Rightarrow> mutation list \<Rightarrow> store" where
  "apply_writes ns ls h ws = foldl (apply_write ns ls) h ws"

text \<open>A fetched graph with one node and its \<^verbatim>\<open>properties\<close> object.\<close>

definition fetched_store :: store where
  "fetched_store =
     [[(''role'', String ''analyst'')],
      [(''id'', String ''n1''), (''name'', String ''Ann''), (''type'', String ''person''),
       (''properties'', Ref 0)]]"


subsection \<open>The force simulation\<close>

record node_datum =
  datum_id :: string
  datum_name :: string
  datum_type :: string
  datum_properties :: "json option"
  datum_x :: "real option"
  datum_y :: "real option"
  datum_fx :: "real option"
  datum_fy :: "real option"

record graph =
  graph_nodes :: "node_datum list"
  graph_links :: "link_datum list"

text \<open>
  A working node: the copy of a fetched node once the simulation has given it a position
  and a velocity. \<open>node_fx\<close> and \<open>node_fy\<close> are the pinned position, \<open>None\<close> when unset.
\<close>

record node =
  node_id :: string
  node_name :: string
  node_type :: string
  node_properties :: "json option"
  node_x :: real
  node_y :: real
  node_vx :: real
  node_vy :: real
  node_fx :: "real option"
  node_fy :: "real option"

text \<open>A working link: its endpoints are positions in the working node array.\<close>

record link =
  source_node :: nat
  target_node :: nat
  relation :: string
  properties :: "json option"

text \<open>
  What one tick's forces do to one node: a change of velocity and a change of position.
\<close>

record impulse =
  dvx :: real
  dvy :: real
  dx :: real
  dy :: real

text \<open>
  The engine's own constants and numerics, which the component never sets: the idle
  threshold, the decay factor, the velocity damping, the initial position of the i-th
  node that has none, and the joint effect of the four forces registered at lines 110 to
  115 (link distance 100, charge -300, centre, collision radius 40) on node \<open>i\<close> at a
  given alpha.
\<close>

record library =
  alphaMin :: real
  alphaDecay :: real
  velocityDecay :: real
  placement :: "nat \<Rightarrow> real \<times> real"
  forces :: "real \<Rightarrow> link list \<Rightarrow> node list \<Rightarrow> nat \<Rightarrow> impulse"

record engine =
  sim_nodes :: "node list"
  sim_links :: "link list"
  forces_set :: bool
  alpha :: real
  alphaTarget :: real
  running :: bool

text \<open>
  Modelled from the spec: the simulation engine (\<^verbatim>\<open>d3.forceSimulation\<close> and its forces)
  is a library that is not among the sources. The spec's data model and section 4.2 give:
  a new engine is Running with alpha 1; a tick applies the forces, moves every node that
  is not pinned by its damped velocity and puts a pinned node at its pinned position, then
  decays alpha toward alphaTarget by a fixed factor; the engine is Idle once alpha is below
  the threshold; \<^verbatim>\<open>stop\<close> halts ticking.
\<close>

definition initializeNode :: "library \<Rightarrow> nat \<Rightarrow> node_datum \<Rightarrow> node" where
  "initializeNode lib i d =
     (let x0 = (case datum_fx d of Some f \<Rightarrow> Some f | None \<Rightarrow> datum_x d);
          y0 = (case datum_fy d of Some f \<Rightarrow> Some f | None \<Rightarrow> datum_y d);
          p = (case (x0, y0) of (Some a, Some b) \<Rightarrow> (a, b) | _ \<Rightarrow> placement lib i)
      in \<lparr> node_id = datum_id d, node_name = datum_name d, node_type = datum_type d,
           node_properties = datum_properties d,
           node_x = fst p, node_y = snd p, node_vx = 0, node_vy = 0,
           node_fx = datum_fx d, node_fy = datum_fy d \<rparr>)"

definition forceSimulation :: "library \<Rightarrow> node_datum list \<Rightarrow> engine" where
  "forceSimulation lib ds =
     \<lparr> sim_nodes = map (\<lambda>(i, d). initializeNode lib i d) (enumerate 0 ds),
       sim_links = [], forces_set = False, alpha = 1, alphaTarget = 0, running = True \<rparr>"

definition stop :: "engine \<Rightarrow> engine" where
  "stop e = e\<lparr>running := False\<rparr>"

definition restart :: "engine \<Rightarrow> engine" where
  "restart e = e\<lparr>running := True\<rparr>"

definition set_alpha :: "real \<Rightarrow> engine \<Rightarrow> engine" where
  "set_alpha a e = e\<lparr>alpha := a\<rparr>"

definition set_alphaTarget :: "real \<Rightarrow> engine \<Rightarrow> engine" where
  "set_alphaTarget t e = e\<lparr>alphaTarget := t\<rparr>"

definition push :: "impulse \<Rightarrow> node \<Rightarrow> node" where
  "push p n = n\<lparr> node_vx := node_vx n + dvx p, node_vy := node_vy n + dvy p,
                 node_x := node_x n + dx p, node_y := node_y n + dy p \<rparr>"

definition apply_forces :: "library \<Rightarrow> engine \<Rightarrow> node list" where
  "apply_forces lib e =
     (if forces_set e
      then map (\<lambda>(i, n). push (forces lib (alpha e) (sim_links e) (sim_nodes e) i) n)
             (enumerate 0 (sim_nodes e))
      else sim_nodes e)"

definition integrate :: "library \<Rightarrow> node \<Rightarrow> node" where
  "integrate lib n =
     (let n1 = (case node_fx n of
                  None \<Rightarrow> n\<lparr> node_vx := node_vx n * velocityDecay lib,
                             node_x := node_x n + node_vx n * velocityDecay lib \<rparr>
                | Some f \<Rightarrow> n\<lparr> node_x := f, node_vx := 0 \<rparr>)
      in (case node_fy n1 of
            None \<Rightarrow> n1\<lparr> node_vy := node_vy n1 * velocityDecay lib,
                        node_y := node_y n1 + node_vy n1 * velocityDecay lib \<rparr>
          | Some f \<Rightarrow> n1\<lparr> node_y := f, node_vy := 0 \<rparr>))"

definition tick :: "library \<Rightarrow> engine \<Rightarrow> engine" where
  "tick lib e =
     e\<lparr> sim_nodes := map (integrate lib) (apply_forces lib e),
        alpha := alpha e + (alphaTarget e - alpha e) * alphaDecay lib \<rparr>"

text \<open>
  One animation frame of an engine's timer: a running engine ticks and goes idle when
  alpha has fallen below the threshold; a stopped or idle engine has no scheduled tick.
\<close>

definition advance :: "library \<Rightarrow> engine \<Rightarrow> engine" where
  "advance lib e =
     (if running e
      then (let e' = tick lib e in if alpha e' < alphaMin lib then stop e' else e')
      else e)"

text \<open>
  Modelled from the spec: the resolution of link endpoints (\<^verbatim>\<open>d3.forceLink(links).id(d => d.id)\<close>)
  is library code that is not among the sources. Section 4.1 of the spec gives the build
  the result \<^verbatim>\<open>GraphModel | Error(InvalidReference)\<close>, and the data model has every
  endpoint resolve to a node of the same model. An id resolves to the last working node
  that carries it.
\<close>

datatype error = InvalidReference string | TypeError

definition find_node :: "node list \<Rightarrow> string \<Rightarrow> nat option" where
  "find_node ns k =
     (case filter (\<lambda>i. node_id (ns ! i) = k) (rev [0 ..< length ns]) of
        [] \<Rightarrow> None
      | i # _ \<Rightarrow> Some i)"

fun resolve_links :: "node list \<Rightarrow> link_datum list \<Rightarrow> error + link list" where
  "resolve_links ns [] = Inr []"
| "resolve_links ns (l # ls) =
     (case find_node ns (link_source l) of
        None \<Rightarrow> Inl (InvalidReference (link_source l))
      | Some s \<Rightarrow>
          (case find_node ns (link_target l) of
             None \<Rightarrow> Inl (InvalidReference (link_target l))
           | Some t \<Rightarrow>
               (case resolve_links ns ls of
                  Inl err \<Rightarrow> Inl err
                | Inr rs \<Rightarrow>
                    Inr (\<lparr> source_node = s, target_node = t, relation = link_type l,
                           properties = link_properties l \<rparr> # rs))))"

subsection \<open>Drag handlers\<close>

text \<open>
  Lines 218 to 235. \<open>active\<close> is \<^verbatim>\<open>event.active\<close> read as a truth value, \<open>i\<close> the position
  of \<^verbatim>\<open>event.subject\<close> among the working nodes, and \<open>px\<close>, \<open>py\<close> are \<^verbatim>\<open>event.x\<close>, \<^verbatim>\<open>event.y\<close>.
\<close>

definition pin :: "nat \<Rightarrow> real \<Rightarrow> real \<Rightarrow> engine \<Rightarrow> engine" where
  "pin i px py e =
     e\<lparr> sim_nodes := (sim_nodes e)[i := (sim_nodes e ! i)\<lparr> node_fx := Some px, node_fy := Some py \<rparr>] \<rparr>"

definition dragstarted :: "bool \<Rightarrow> nat \<Rightarrow> engine \<Rightarrow> engine" where
  "dragstarted active i e =
     (let e1 = (if \<not> active then restart (set_alphaTarget (3 / 10) e) else e)
      in pin i (node_x (sim_nodes e1 ! i)) (node_y (sim_nodes e1 ! i)) e1)"

definition dragged :: "nat \<Rightarrow> real \<Rightarrow> real \<Rightarrow> engine \<Rightarrow> engine" where
  "dragged i px py e = pin i px py e"

definition dragended :: "bool \<Rightarrow> nat \<Rightarrow> real \<Rightarrow> real \<Rightarrow> engine \<Rightarrow> engine" where
  "dragended active i px py e =
     (let e1 = (if \<not> active then set_alphaTarget 0 e else e) in pin i px py e1)"


subsection \<open>The component\<close>

text \<open>
  A zoom transform \<^verbatim>\<open>{k, x, y}\<close> with the two operations the zoom effect uses:
  \<^verbatim>\<open>translate\<close> and \<^verbatim>\<open>scale\<close> build a new transform from the receiver.
\<close>

record transform =
  t_k :: real
  t_x :: real
  t_y :: real

definition zoomIdentity :: transform where
  "zoomIdentity = \<lparr> t_k = 1, t_x = 0, t_y = 0 \<rparr>"

definition translate :: "transform \<Rightarrow> real \<Rightarrow> real \<Rightarrow> transform" where
  "translate t px py = \<lparr> t_k = t_k t, t_x = t_x t + t_k t * px, t_y = t_y t + t_k t * py \<rparr>"

definition scale :: "transform \<Rightarrow> real \<Rightarrow> transform" where
  "scale t k = \<lparr> t_k = t_k t * k, t_x = t_x t, t_y = t_y t \<rparr>"

text \<open>
  The mounted \<^verbatim>\<open>svg\<close> element: the transform the zoom behaviour keeps on the element
  (the identity until one is stored), the \<^verbatim>\<open>transform\<close> attribute of the group the
  drawing hangs in (\<open>None\<close> while it has none), and the simulation whose nodes, links and
  event handlers the element carries (\<open>None\<close> for an element nothing was drawn into).
\<close>

record surface =
  zoom_transform :: transform
  group_transform :: "transform option"
  drawn :: "nat option"

definition blank :: surface where
  "blank = \<lparr> zoom_transform = zoomIdentity, group_transform = None, drawn = None \<rparr>"

text \<open>
  The component's state hooks and references. \<open>selectedNode\<close> refers to a working node
  by simulation and position; \<open>simulationRef\<close> is a position in the list of simulations
  created so far. \<open>requests\<close> counts the \<^verbatim>\<open>api.get\<close> calls issued and \<open>pending\<close> those not
  yet settled.
\<close>

record component =
  graphData :: "graph option"
  loading :: bool
  error :: "string option"
  selectedNode :: "(nat \<times> nat) option"
  zoom :: real
  simulationRef :: "nat option"
  svgRef :: "surface option"
  requests :: nat
  pending :: nat

text \<open>
  The page: the component while it is mounted, every simulation created so far (a
  simulation's timer lives outside the component), and an error that escaped an effect.
\<close>

record system =
  mounted :: "component option"
  simulations :: "engine list"
  uncaught :: "error option"

text \<open>
  Lines 313 to 324: the \<^verbatim>\<open>svg\<close> is rendered only while \<open>loading\<close> is false. Setting
  \<open>loading\<close> removes the element, and clearing it mounts a new, empty one.
\<close>

definition render :: "component \<Rightarrow> component" where
  "render c =
     (if loading c then c\<lparr>svgRef := None\<rparr>
      else (case svgRef c of None \<Rightarrow> c\<lparr>svgRef := Some blank\<rparr> | Some s \<Rightarrow> c))"

text \<open>
  Lines 56 to 70, \<^verbatim>\<open>fetchGraphData\<close>, in the three parts an asynchronous call has: up to
  the \<^verbatim>\<open>await\<close>, the continuation when the request resolves, and the one when it rejects.
\<close>

definition fetchGraphData :: "component \<Rightarrow> component" where
  "fetchGraphData c =
     render (c\<lparr> loading := True, error := None,
                requests := Suc (requests c), pending := Suc (pending c) \<rparr>)"

definition fetch_resolved :: "graph \<Rightarrow> component \<Rightarrow> component" where
  "fetch_resolved g c =
     render (c\<lparr> graphData := Some g, loading := False, pending := pending c - 1 \<rparr>)"

definition fetch_rejected :: "component \<Rightarrow> component" where
  "fetch_rejected c =
     render (c\<lparr> error := Some ''Failed to load relationship graph data. Please try again.'',
                loading := False, pending := pending c - 1 \<rparr>)"

definition handleRefresh :: "component \<Rightarrow> component" where
  "handleRefresh c = fetchGraphData c"

definition stop_at :: "nat option \<Rightarrow> engine list \<Rightarrow> engine list" where
  "stop_at r es =
     (case r of
        None \<Rightarrow> es
      | Some i \<Rightarrow> if i < length es then es[i := stop (es ! i)] else es)"

text \<open>
  Lines 76 to 244, the effect on \<^verbatim>\<open>[graphData, width, height]\<close>. The clean-up of its
  previous run (lines 241 to 243) comes first and stops that run's simulation, which is
  the one in \<^verbatim>\<open>simulationRef\<close>. Without data or without an \<^verbatim>\<open>svg\<close> the effect returns at
  once. Otherwise it stops the simulation in \<^verbatim>\<open>simulationRef\<close>, empties
  the \<^verbatim>\<open>svg\<close>, attaches the zoom behaviour, creates the simulation over copies of the
  fetched nodes and registers the link force; with every endpoint resolved it stores the
  simulation in \<^verbatim>\<open>simulationRef\<close>, draws, and restarts at alpha 1. The effect has no
  \<^verbatim>\<open>try\<close>: an error from the link force leaves it, with the simulation of line 109 already
  started, and the component is taken down.
\<close>

definition graph_effect :: "library \<Rightarrow> system \<Rightarrow> component \<Rightarrow> system" where
  "graph_effect lib sys c =
     (let cleaned = stop_at (simulationRef c) (simulations sys)
      in (case (graphData c, svgRef c) of
            (Some g, Some s) \<Rightarrow>
              (let sims = stop_at (simulationRef c) cleaned;
                   e0 = forceSimulation lib (graph_nodes g)
               in (case resolve_links (sim_nodes e0) (graph_links g) of
                     Inl err \<Rightarrow>
                       \<lparr> mounted = None, simulations = sims @ [e0], uncaught = Some err \<rparr>
                   | Inr ls \<Rightarrow>
                       (let e1 = restart (set_alpha 1 (e0\<lparr> sim_links := ls, forces_set := True \<rparr>));
                            k = length sims
                        in \<lparr> mounted = Some (c\<lparr> simulationRef := Some k,
                                    svgRef := Some (s\<lparr> group_transform := None, drawn := Some k \<rparr>) \<rparr>),
                             simulations = sims @ [e1], uncaught = uncaught sys \<rparr>)))
          | _ \<Rightarrow> sys\<lparr> mounted := Some c, simulations := cleaned \<rparr>))"

text \<open>
  Lines 246 to 260, the effect on \<^verbatim>\<open>[zoom]\<close>: it stores a transform with the scale
  \<open>zoom\<close> and the current translation on the \<^verbatim>\<open>svg\<close>, through a zoom behaviour of its own
  that has no listener, so the group's attribute is not rewritten.
\<close>

definition zoom_effect :: "component \<Rightarrow> component" where
  "zoom_effect c =
     (case svgRef c of
        None \<Rightarrow> c
      | Some s \<Rightarrow>
          (let cur = zoom_transform s;
               new = scale (translate zoomIdentity (t_x cur) (t_y cur)) (zoom c)
           in c\<lparr> svgRef := Some (s\<lparr> zoom_transform := new \<rparr>) \<rparr>))"

definition handleZoomIn :: "real \<Rightarrow> real" where
  "handleZoomIn prev = min (prev + 2 / 10) 3"

definition handleZoomOut :: "real \<Rightarrow> real" where
  "handleZoomOut prev = max (prev - 2 / 10) (5 / 10)"

text \<open>
  \<^verbatim>\<open>setZoom\<close> with an updater: a state that does not change causes no render and no
  effect.
\<close>

definition setZoom :: "(real \<Rightarrow> real) \<Rightarrow> component \<Rightarrow> component" where
  "setZoom f c =
     (if f (zoom c) = zoom c then c else zoom_effect (render (c\<lparr> zoom := f (zoom c) \<rparr>)))"

text \<open>
  Lines 96 to 102, the zoom behaviour of the \<^verbatim>\<open>svg\<close> (wheel, and drag on the background).
  A gesture asks for the factor \<open>f\<close> on the scale and arrives at the translation
  \<open>(px, py)\<close>; the behaviour clamps the scale to its extent, stores the transform on the
  element and its listener writes it to the group.
\<close>

definition zoomBehavior :: "real \<Rightarrow> real \<Rightarrow> real \<Rightarrow> surface \<Rightarrow> surface" where
  "zoomBehavior f px py s =
     (let t = \<lparr> t_k = max (1 / 10) (min 4 (t_k (zoom_transform s) * f)), t_x = px, t_y = py \<rparr>
      in s\<lparr> zoom_transform := t, group_transform := Some t \<rparr>)"

text \<open>
  Lines 184 to 192, the click listeners. A click on a node runs the node listener and
  then, unless the listener stopped it, the listener of the \<^verbatim>\<open>svg\<close>. The node listener
  returns whether it called \<^verbatim>\<open>stopPropagation\<close>.
\<close>

definition node_click :: "nat \<Rightarrow> nat \<Rightarrow> component \<Rightarrow> bool \<times> component" where
  "node_click e i c = (True, c\<lparr> selectedNode := Some (e, i) \<rparr>)"

definition svg_click :: "component \<Rightarrow> component" where
  "svg_click c = c\<lparr> selectedNode := None \<rparr>"

definition click_node :: "nat \<Rightarrow> nat \<Rightarrow> component \<Rightarrow> component" where
  "click_node e i c =
     (case node_click e i c of (stopped, c1) \<Rightarrow> if stopped then c1 else svg_click c1)"

text \<open>Line 342, the Close button of the detail panel.\<close>

definition close_panel :: "component \<Rightarrow> component" where
  "close_panel c = c\<lparr> selectedNode := None \<rparr>"

text \<open>
  Line 331, in the detail panel: \<^verbatim>\<open>Object.entries(selectedNode.properties)\<close> raises a
  \<^verbatim>\<open>TypeError\<close> when \<^verbatim>\<open>properties\<close> is \<^verbatim>\<open>undefined\<close> or \<^verbatim>\<open>null\<close>, and lists the entries of any
  other value. The panel is rendered in the branch of the \<^verbatim>\<open>svg\<close> (lines 317 to 348), so
  a click that reaches a node is followed by a render of the panel for that node; every
  later render evaluates the same expression on the same object.
\<close>

definition entries_throws :: "json option \<Rightarrow> bool" where
  "entries_throws p = (p = None \<or> p = Some JNull)"

text \<open>
  Nothing in the sources catches an error raised while rendering: the component is taken
  down, which runs the clean-up of the drawing effect (lines 241 to 243).
\<close>

definition render_failed :: "system \<Rightarrow> component \<Rightarrow> system" where
  "render_failed sys c =
     \<lparr> mounted = None, simulations = stop_at (simulationRef c) (simulations sys),
       uncaught = Some TypeError \<rparr>"

subsection \<open>Events\<close>

datatype event =
    FetchResolved graph
  | FetchRejected
  | Refresh
  | ZoomIn
  | ZoomOut
  | Gesture real real real
  | NodeClick nat
  | BackgroundClick
  | Close
  | DragStart bool nat nat
  | Drag nat nat real real
  | DragEnd bool nat nat real real
  | Frame
  | Unmount

text \<open>
  What an event does to a mounted component. A settlement needs a pending request. Clicks,
  gestures and the start of a drag need an \<^verbatim>\<open>svg\<close> that carries the drawing and its
  listeners; a drag can only start on a node of the simulation drawn there. A click on a
  node selects it, and the render that follows fails for a node without properties.
\<close>

definition on_drawn :: "component \<Rightarrow> (surface \<Rightarrow> nat \<Rightarrow> 'a) \<Rightarrow> 'a \<Rightarrow> 'a" where
  "on_drawn c f d =
     (case svgRef c of
        None \<Rightarrow> d
      | Some s \<Rightarrow> (case drawn s of None \<Rightarrow> d | Some e \<Rightarrow> f s e))"

definition has_node :: "engine list \<Rightarrow> nat \<Rightarrow> nat \<Rightarrow> bool" where
  "has_node es e i = (e < length es \<and> i < length (sim_nodes (es ! e)))"

fun component_step :: "library \<Rightarrow> system \<Rightarrow> component \<Rightarrow> event \<Rightarrow> system" where
  "component_step lib sys c (FetchResolved g) =
     (if pending c = 0 then sys else graph_effect lib sys (fetch_resolved g c))"
| "component_step lib sys c FetchRejected =
     (if pending c = 0 then sys else sys\<lparr> mounted := Some (fetch_rejected c) \<rparr>)"
| "component_step lib sys c Refresh = sys\<lparr> mounted := Some (handleRefresh c) \<rparr>"
| "component_step lib sys c ZoomIn = sys\<lparr> mounted := Some (setZoom handleZoomIn c) \<rparr>"
| "component_step lib sys c ZoomOut = sys\<lparr> mounted := Some (setZoom handleZoomOut c) \<rparr>"
| "component_step lib sys c (Gesture f px py) =
     on_drawn c (\<lambda>s e. sys\<lparr> mounted := Some (c\<lparr> svgRef := Some (zoomBehavior f px py s) \<rparr>) \<rparr>) sys"
| "component_step lib sys c (NodeClick i) =
     on_drawn c (\<lambda>s e. if has_node (simulations sys) e i
                        then (if entries_throws (node_properties (sim_nodes (simulations sys ! e) ! i))
                              then render_failed sys (click_node e i c)
                              else sys\<lparr> mounted := Some (click_node e i c) \<rparr>)
                        else sys) sys"
| "component_step lib sys c BackgroundClick =
     on_drawn c (\<lambda>s e. sys\<lparr> mounted := Some (svg_click c) \<rparr>) sys"
| "component_step lib sys c Close =
     (if selectedNode c \<noteq> None \<and> \<not> loading c
      then sys\<lparr> mounted := Some (close_panel c) \<rparr> else sys)"
| "component_step lib sys c (DragStart active e i) =
     on_drawn c (\<lambda>s e'. if e' = e \<and> has_node (simulations sys) e i
                         then sys\<lparr> simulations :=
                                (simulations sys)[e := dragstarted active i (simulations sys ! e)] \<rparr>
                         else sys) sys"
| "component_step lib sys c Unmount =
     sys\<lparr> mounted := None, simulations := stop_at (simulationRef c) (simulations sys) \<rparr>"
| "component_step lib sys c ev = sys"

text \<open>
  One event on the page. A frame advances every simulation's timer. The later events of a
  drag come from listeners on the window and reach the node the drag started on, whatever
  has happened to the component since.
\<close>

fun step :: "library \<Rightarrow> system \<Rightarrow> event \<Rightarrow> system" where
  "step lib sys Frame = sys\<lparr> simulations := map (advance lib) (simulations sys) \<rparr>"
| "step lib sys (Drag e i px py) =
     (if has_node (simulations sys) e i
      then sys\<lparr> simulations := (simulations sys)[e := dragged i px py (simulations sys ! e)] \<rparr>
      else sys)"
| "step lib sys (DragEnd active e i px py) =
     (if has_node (simulations sys) e i
      then sys\<lparr> simulations :=
             (simulations sys)[e := dragended active i px py (simulations sys ! e)] \<rparr>
      else sys)"
| "step lib sys ev =
     (case mounted sys of None \<Rightarrow> sys | Some c \<Rightarrow> component_step lib sys c ev)"

fun run :: "library \<Rightarrow> system \<Rightarrow> event list \<Rightarrow> system" where
  "run lib sys [] = sys"
| "run lib sys (ev # evs) = run lib (step lib sys ev) evs"

text \<open>
  Mounting: the first render has \<open>loading\<close> false and so an \<^verbatim>\<open>svg\<close>; the zoom effect runs
  on it, the graph effect returns at once for want of data, and the fetch effect (lines
  72 to 74) calls \<^verbatim>\<open>fetchGraphData\<close>.
\<close>

definition initial :: component where
  "initial = \<lparr> graphData = None, loading = False, error = None, selectedNode = None,
               zoom = 1, simulationRef = None, svgRef = Some blank, requests = 0, pending = 0 \<rparr>"

definition mount :: system where
  "mount = \<lparr> mounted = Some (fetchGraphData (zoom_effect initial)), simulations = [],
             uncaught = None \<rparr>"


subsection \<open>Sample values\<close>

text \<open>A library instance with round numbers, for evaluating the model.\<close>

definition sample_library :: library where
  "sample_library =
     \<lparr> alphaMin = 1 / 1000, alphaDecay = 1 / 2, velocityDecay = 6 / 10,
       placement = (\<lambda>i. (10 * real i, 0)),
       forces = (\<lambda>a ls ns i. \<lparr> dvx = a, dvy = 0, dx = 0, dy = 0 \<rparr>) \<rparr>"

definition sample_node :: "string \<Rightarrow> node_datum" where
  "sample_node k =
     \<lparr> datum_id = k, datum_name = k, datum_type = ''person'',
       datum_properties = Some (JObj []),
       datum_x = None, datum_y = None, datum_fx = None, datum_fy = None \<rparr>"

definition sample_link :: "string \<Rightarrow> string \<Rightarrow> link_datum" where
  "sample_link a b =
     \<lparr> link_source = a, link_target = b, link_type = ''knows'', link_properties = None \<rparr>"

definition sample_graph :: graph where
  "sample_graph =
     \<lparr> graph_nodes = [sample_node ''a'', sample_node ''b''],
       graph_links = [sample_link ''a'' ''b''] \<rparr>"

definition dangling_graph :: graph where
  "dangling_graph =
     \<lparr> graph_nodes = [sample_node ''a'', sample_node ''b''],
       graph_links = [sample_link ''a'' ''b'', sample_link ''b'' ''c''] \<rparr>"

text \<open>A graph whose second node came without \<^verbatim>\<open>properties\<close>.\<close>

definition bare_graph :: graph where
  "bare_graph =
     \<lparr> graph_nodes = [sample_node ''a'', (sample_node ''b'')\<lparr> datum_properties := None \<rparr>],
       graph_links = [sample_link ''a'' ''b''] \<rparr>"

subsection \<open>Observations\<close>

text \<open>
  The selection, the zoom state, the scale of the transform stored on the \<^verbatim>\<open>svg\<close> and
  the simulation whose drawing is on screen, read off the page; an unmounted component has
  no state and shows nothing.
\<close>

definition drawing :: "system \<Rightarrow> nat option" where
  "drawing sys =
     (case mounted sys of
        None \<Rightarrow> None
      | Some c \<Rightarrow> (case svgRef c of None \<Rightarrow> None | Some s \<Rightarrow> drawn s))"

definition selection :: "system \<Rightarrow> (nat \<times> nat) option" where
  "selection sys = (case mounted sys of None \<Rightarrow> None | Some c \<Rightarrow> selectedNode c)"

definition button_scale :: "system \<Rightarrow> real option" where
  "button_scale sys = map_option zoom (mounted sys)"

definition view_scale :: "system \<Rightarrow> real option" where
  "view_scale sys =
     (case mounted sys of
        None \<Rightarrow> None
      | Some c \<Rightarrow> map_option (\<lambda>s. t_k (zoom_transform s)) (svgRef c))"

text \<open>What a button press does to the zoom state; any other event leaves it.\<close>

definition press :: "real \<Rightarrow> event \<Rightarrow> real" where
  "press z ev = (if ev = ZoomIn then handleZoomIn z else if ev = ZoomOut then handleZoomOut z else z)"

subsection \<open>Invariants and observations of traces\<close>

text \<open>
  \<open>resolved\<close> relates a fetched link to the working link built from it, and \<open>endpoints\<close>
  collects the ids a list of links refers to. \<open>older_stopped\<close> says that no simulation
  but the newest is running. \<open>quiet e i\<close> holds of the events that neither rebuild the
  model nor drag node \<open>i\<close> of simulation \<open>e\<close>; \<open>pinned_at\<close> and \<open>placed_at\<close> read the pinned
  position and the position of that node.
\<close>

definition resolved :: "node list \<Rightarrow> link_datum \<Rightarrow> link \<Rightarrow> bool" where
  "resolved ns l r =
     (source_node r < length ns \<and> node_id (ns ! source_node r) = link_source l \<and>
      target_node r < length ns \<and> node_id (ns ! target_node r) = link_target l \<and>
      relation r = link_type l \<and> properties r = link_properties l)"

definition endpoints :: "link_datum list \<Rightarrow> string set" where
  "endpoints ls = link_source ` set ls \<union> link_target ` set ls"

definition older_stopped :: "engine list \<Rightarrow> bool" where
  "older_stopped es = list_all (\<lambda>e. \<not> running e) (butlast es)"

definition newest :: "engine list \<Rightarrow> nat option" where
  "newest es = (if es = [] then None else Some (length es - 1))"

definition current_is_newest :: "system \<Rightarrow> bool" where
  "current_is_newest sys =
     (case mounted sys of
        None \<Rightarrow> True
      | Some c \<Rightarrow>
          simulationRef c = newest (simulations sys) \<and>
          (case svgRef c of
             None \<Rightarrow> True
           | Some s \<Rightarrow> drawn s = None \<or> drawn s = simulationRef c))"

definition one_at_a_time :: "system \<Rightarrow> bool" where
  "one_at_a_time sys = (older_stopped (simulations sys) \<and> current_is_newest sys)"

fun quiet :: "nat \<Rightarrow> nat \<Rightarrow> event \<Rightarrow> bool" where
  "quiet e i (FetchResolved g) = False"
| "quiet e i (DragStart active e' i') = (e' \<noteq> e \<or> i' \<noteq> i)"
| "quiet e i (Drag e' i' px py) = (e' \<noteq> e \<or> i' \<noteq> i)"
| "quiet e i (DragEnd active e' i' px py) = (e' \<noteq> e \<or> i' \<noteq> i)"
| "quiet e i ev = True"

definition node_of :: "system \<Rightarrow> nat \<Rightarrow> nat \<Rightarrow> node" where
  "node_of sys e i = sim_nodes (simulations sys ! e) ! i"

definition pinned_at :: "nat \<Rightarrow> nat \<Rightarrow> real \<Rightarrow> real \<Rightarrow> system \<Rightarrow> bool" where
  "pinned_at e i px py sys =
     (has_node (simulations sys) e i \<and>
      node_fx (node_of sys e i) = Some px \<and> node_fy (node_of sys e i) = Some py)"

definition placed_at :: "nat \<Rightarrow> nat \<Rightarrow> real \<Rightarrow> real \<Rightarrow> system \<Rightarrow> bool" where
  "placed_at e i px py sys =
     (pinned_at e i px py sys \<and> node_x (node_of sys e i) = px \<and> node_y (node_of sys e i) = py)"

definition all_stopped :: "engine list \<Rightarrow> bool" where
  "all_stopped es = list_all (\<lambda>e. \<not> running e) es"

subsection \<open>Stroke width\<close>

text \<open>
  C10. The stroke width of a link is \<open>sqrt (2 * strength)\<close> for its
  \<^verbatim>\<open>properties.strength\<close>; an absent or falsy strength (zero, null, false, the empty
  string, or no properties at all) counts as 1 and gives \<open>sqrt 2\<close>. A negative strength
  has no real square root: the result is not a number.
\<close>

theorem stroke_width_strength:
  "(strength_of props = None \<longrightarrow> stroke_width conv props = Some (sqrt 2)) \<and>
   (\<forall>v. strength_of props = Some v \<and> \<not> truthy v \<longrightarrow> stroke_width conv props = Some (sqrt 2)) \<and>
   (\<forall>s. strength_of props = Some (JNum s) \<and> 0 < s \<longrightarrow>
        stroke_width conv props = Some (sqrt (2 * s))) \<and>
   (\<forall>s. strength_of props = Some (JNum s) \<and> s < 0 \<longrightarrow> stroke_width conv props = None) \<and>
   (\<forall>v. strength_of props = Some v \<and> truthy v \<longrightarrow>
        stroke_width conv props = Math_sqrt (times_two (ToNumber conv v)))"
proof -
  have absent: "strength_of props = None \<longrightarrow> stroke_width conv props = Some (sqrt 2)"
    by (simp add: stroke_width_def or_one_def times_two_def Math_sqrt_def)
  have falsy: "\<forall>v. strength_of props = Some v \<and> \<not> truthy v \<longrightarrow>
      stroke_width conv props = Some (sqrt 2)"
    by (simp add: stroke_width_def or_one_def times_two_def Math_sqrt_def)
  have pos: "\<forall>s. strength_of props = Some (JNum s) \<and> 0 < s \<longrightarrow>
      stroke_width conv props = Some (sqrt (2 * s))"
    by (simp add: stroke_width_def or_one_def times_two_def Math_sqrt_def mult.commute)
  have neg: "\<forall>s. strength_of props = Some (JNum s) \<and> s < 0 \<longrightarrow> stroke_width conv props = None"
    by (simp add: stroke_width_def or_one_def times_two_def Math_sqrt_def)
  have gen: "\<forall>v. strength_of props = Some v \<and> truthy v \<longrightarrow>
      stroke_width conv props = Math_sqrt (times_two (ToNumber conv v))"
    by (simp add: stroke_width_def or_one_def)
  from absent falsy pos neg gen show ?thesis by blast
qed

theorem stroke_width_strength_witness:
  "stroke_width (\<lambda>v. None) (Some (JObj [(''weight'', JNum 3)])) = Some (sqrt 2) \<and>
   stroke_width (\<lambda>v. None) (Some (JObj [(''strength'', JNum 0)])) = Some (sqrt 2) \<and>
   stroke_width (\<lambda>v. None) (Some (JObj [(''strength'', JNum 8)])) = Some 4 \<and>
   stroke_width (\<lambda>v. None) (Some (JObj [(''strength'', JNum (- 1))])) = None"
proof -
  have a: "strength_of (Some (JObj [(''weight'', JNum 3)])) = None" by simp
  have b: "strength_of (Some (JObj [(''strength'', JNum 0)])) = Some (JNum 0) \<and> \<not> truthy (JNum 0)"
    by simp
  have c: "strength_of (Some (JObj [(''strength'', JNum 8)])) = Some (JNum 8) \<and> (0::real) < 8"
    by simp
  have d: "strength_of (Some (JObj [(''strength'', JNum (- 1))])) = Some (JNum (- 1)) \<and> (- 1::real) < 0"
    by simp
  have s16: "sqrt 16 = 4"
    using real_sqrt_abs [of 4] by simp
  from stroke_width_strength [of "Some (JObj [(''weight'', JNum 3)])" "\<lambda>v. None"] a
  have 1: "stroke_width (\<lambda>v. None) (Some (JObj [(''weight'', JNum 3)])) = Some (sqrt 2)"
    by blast
  from stroke_width_strength [of "Some (JObj [(''strength'', JNum 0)])" "\<lambda>v. None"] b
  have 2: "stroke_width (\<lambda>v. None) (Some (JObj [(''strength'', JNum 0)])) = Some (sqrt 2)"
    by blast
  from stroke_width_strength [of "Some (JObj [(''strength'', JNum 8)])" "\<lambda>v. None"] c
  have "stroke_width (\<lambda>v. None) (Some (JObj [(''strength'', JNum 8)])) = Some (sqrt (2 * 8))"
    by blast
  then have 3: "stroke_width (\<lambda>v. None) (Some (JObj [(''strength'', JNum 8)])) = Some 4"
    using s16 by simp
  from stroke_width_strength [of "Some (JObj [(''strength'', JNum (- 1))])" "\<lambda>v. None"] d
  have 4: "stroke_width (\<lambda>v. None) (Some (JObj [(''strength'', JNum (- 1))])) = None"
    by blast
  from 1 2 3 4 show ?thesis by blast
qed

subsection \<open>Copies and the fetched data\<close>

lemma map_spread_extends:
  "map_spread h as = (as', h') \<Longrightarrow>
   length h' = length h + length as \<and> take (length h) h' = h \<and>
   as' = [length h ..< length h + length as]"
proof (induction as arbitrary: h as' h')
  case Nil
  then show ?case by simp
next
  case (Cons a as)
  obtain bs h2 where rec: "map_spread (h @ [if a < length h then h ! a else []]) as = (bs, h2)"
    by (cases "map_spread (h @ [if a < length h then h ! a else []]) as") auto
  from Cons.prems rec have res: "as' = length h # bs" "h' = h2"
    by (auto simp: spread_def)
  from Cons.IH [OF rec] have ih:
    "length h2 = Suc (length h) + length as"
    "take (Suc (length h)) h2 = h @ [if a < length h then h ! a else []]"
    "bs = [Suc (length h) ..< Suc (length h) + length as]"
    by simp_all
  have "take (length h) h2 = take (length h) (take (Suc (length h)) h2)"
    by (simp add: min_def)
  also have "\<dots> = h"
    using ih(2) by simp
  finally have "take (length h) h2 = h" .
  moreover have "[length h ..< length h + length (a # as)] =
      length h # [Suc (length h) ..< Suc (length h) + length as]"
    by (simp add: upt_conv_Cons del: upt_Suc)
  ultimately show ?case
    using res ih by (simp del: upt_Suc)
qed

lemma length_set_field: "length (set_field h a k v) = length h"
  by (simp add: set_field_def)

lemma set_field_above: "n \<le> a \<Longrightarrow> take n (set_field h a k v) = take n h"
  by (simp add: set_field_def)

lemma apply_writes_above:
  "\<forall>a \<in> set ns \<union> set ls. n \<le> a \<Longrightarrow>
   take n (apply_writes ns ls h ws) = take n h \<and> length (apply_writes ns ls h ws) = length h"
proof (induction ws arbitrary: h)
  case Nil
  then show ?case by (simp add: apply_writes_def)
next
  case (Cons w ws)
  have step: "take n (apply_write ns ls h w) = take n h \<and>
      length (apply_write ns ls h w) = length h"
    using Cons.prems by (cases w) (auto simp: set_field_above length_set_field)
  from Cons.IH [OF Cons.prems, of "apply_write ns ls h w"] step
  show ?case by (simp add: apply_writes_def)
qed

text \<open>
  What does hold of the copies: every object of the store as it was fetched, the nested
  \<^verbatim>\<open>properties\<close> objects included, is the same after the copy and after any sequence of
  writes to members of the working nodes and links.
\<close>

lemma writes_leave_fetched_objects:
  assumes "copy_graph h ns ls = ((ns', ls'), h')" and "a < length h"
  shows "apply_writes ns' ls' h' ws ! a = h ! a"
proof -
  obtain h1 where n: "map_spread h ns = (ns', h1)" and l: "map_spread h1 ls = (ls', h')"
    using assms(1) by (auto simp: copy_graph_def split: prod.splits)
  from map_spread_extends [OF n] map_spread_extends [OF l]
  have len: "length h1 = length h + length ns" "length h' = length h1 + length ls"
    and tk: "take (length h) h1 = h" "take (length h1) h' = h1"
    and ad: "ns' = [length h ..< length h + length ns]" "ls' = [length h1 ..< length h1 + length ls]"
    by simp_all
  have "take (length h) h' = take (length h) (take (length h1) h')"
    using len by (simp add: min_def)
  then have keep: "take (length h) h' = h"
    using tk by simp
  have "\<forall>b \<in> set ns' \<union> set ls'. length h \<le> b"
    using ad len by auto
  from apply_writes_above [OF this, of h' ws]
  have "take (length h) (apply_writes ns' ls' h' ws) = h"
    using keep by simp
  then have "take (length h) (apply_writes ns' ls' h' ws) ! a = h ! a"
    by simp
  then show ?thesis
    using assms(2) by simp
qed

text \<open>
  C4. The copy is not deep. On the fetched graph of one node, the working node is a new
  object whose \<^verbatim>\<open>properties\<close> member is the very reference the fetched node holds, so an
  assignment through the working node's \<^verbatim>\<open>properties\<close> changes the fetched node's
  properties object.
\<close>

theorem copy_shares_properties:
  "copy_graph fetched_store [1] [] = (([2], []), fetched_store @ [fetched_store ! 1]) \<and>
   get_field (snd (copy_graph fetched_store [1] [])) 2 ''properties'' = Some (Ref 0) \<and>
   get_field (snd (copy_graph fetched_store [1] [])) 1 ''properties'' = Some (Ref 0) \<and>
   get_field (set_field (snd (copy_graph fetched_store [1] [])) 0 ''role'' (String ''edited''))
     0 ''role'' = Some (String ''edited'') \<and>
   get_field fetched_store 0 ''role'' = Some (String ''analyst'')"
  by (simp add: copy_graph_def spread_def fetched_store_def get_field_def set_field_def)

subsection \<open>Cooling\<close>

lemma alpha_tick: "alpha (tick lib e) = alpha e + (alphaTarget e - alpha e) * alphaDecay lib"
  by (simp add: tick_def)

lemma advance_idle: "\<not> running e \<Longrightarrow> advance lib e = e"
  by (simp add: advance_def)

lemma advance_fields:
  "alphaTarget (advance lib e) = alphaTarget e"
  "running e \<Longrightarrow> alpha (advance lib e) = alpha e + (alphaTarget e - alpha e) * alphaDecay lib"
  "running (advance lib e) \<longleftrightarrow> running e \<and> \<not> alpha (tick lib e) < alphaMin lib"
  by (auto simp: advance_def tick_def stop_def Let_def)

lemma decay_invariant:
  assumes d: "0 < alphaDecay lib" "alphaDecay lib < 1"
    and e: "alpha e = 1" "alphaTarget e = 0" "running e"
  shows "alphaTarget ((advance lib ^^ n) e) = 0 \<and>
         0 \<le> alpha ((advance lib ^^ n) e) \<and>
         (running ((advance lib ^^ n) e) \<longrightarrow>
            alpha ((advance lib ^^ n) e) = (1 - alphaDecay lib) ^ n) \<and>
         (running ((advance lib ^^ n) e) \<and> 0 < n \<longrightarrow> alphaMin lib \<le> alpha ((advance lib ^^ n) e)) \<and>
         (\<not> running ((advance lib ^^ n) e) \<longrightarrow> alpha ((advance lib ^^ n) e) < alphaMin lib)"
proof (induction n)
  case 0
  with e show ?case by simp
next
  case (Suc n)
  let ?f = "(advance lib ^^ n) e"
  show ?case
  proof (cases "running ?f")
    case False
    with Suc show ?thesis by (simp add: advance_idle)
  next
    case True
    with Suc have a: "alpha ?f = (1 - alphaDecay lib) ^ n" and t: "alphaTarget ?f = 0"
      by simp_all
    have next_alpha: "alpha (advance lib ?f) = (1 - alphaDecay lib) ^ Suc n"
      using True a t by (simp add: advance_fields algebra_simps)
    have tk: "alpha (tick lib ?f) = (1 - alphaDecay lib) ^ Suc n"
      using a t by (simp add: alpha_tick algebra_simps)
    have nonneg: "0 \<le> (1 - alphaDecay lib) ^ Suc n"
      using d by simp
    show ?thesis
      using True t next_alpha tk nonneg
      by (auto simp: advance_fields simp del: power_Suc)
  qed
qed

lemma advance_stays_idle:
  "\<not> running ((advance lib ^^ N) e) \<Longrightarrow> N \<le> n \<Longrightarrow> (advance lib ^^ n) e = (advance lib ^^ N) e"
proof (induction n)
  case 0
  then show ?case by simp
next
  case (Suc n)
  show ?case
  proof (cases "N = Suc n")
    case True
    then show ?thesis by simp
  next
    case False
    with Suc have "(advance lib ^^ n) e = (advance lib ^^ N) e" by simp
    with Suc.prems(1) show ?thesis by (simp add: advance_idle)
  qed
qed

text \<open>
  C2. An engine started at alpha 1 with alphaTarget 0 and left to its timer: alpha never
  increases from one frame to the next; while the engine runs, alpha after \<open>n\<close> ticks is
  \<open>(1 - alphaDecay) ^ n\<close>; as soon as that power is below the threshold the engine is idle
  with alpha below the threshold, and it stays in that state; such a number of ticks exists.
\<close>

theorem alpha_decays_to_idle:
  assumes "0 < alphaDecay lib" and "alphaDecay lib < 1" and "0 < alphaMin lib"
    and "alpha e = 1" and "alphaTarget e = 0" and "running e"
  shows "(\<forall>n. alpha ((advance lib ^^ Suc n) e) \<le> alpha ((advance lib ^^ n) e)) \<and>
         (\<forall>n. running ((advance lib ^^ n) e) \<longrightarrow>
               alpha ((advance lib ^^ n) e) = (1 - alphaDecay lib) ^ n) \<and>
         (\<forall>N n. 0 < N \<and> (1 - alphaDecay lib) ^ N < alphaMin lib \<and> N \<le> n \<longrightarrow>
               \<not> running ((advance lib ^^ n) e) \<and>
               alpha ((advance lib ^^ n) e) < alphaMin lib \<and>
               (advance lib ^^ n) e = (advance lib ^^ N) e) \<and>
         (\<exists>N. \<forall>n\<ge>N. \<not> running ((advance lib ^^ n) e) \<and>
               alpha ((advance lib ^^ n) e) < alphaMin lib)"
proof -
  note inv = decay_invariant [OF assms(1,2,4,5,6)]
  have mono: "\<forall>n. alpha ((advance lib ^^ Suc n) e) \<le> alpha ((advance lib ^^ n) e)"
  proof
    fix n
    let ?f = "(advance lib ^^ n) e"
    show "alpha ((advance lib ^^ Suc n) e) \<le> alpha ?f"
    proof (cases "running ?f")
      case False
      then show ?thesis by (simp add: advance_idle)
    next
      case True
      from inv [of n] have "alphaTarget ?f = 0" and "0 \<le> alpha ?f" by simp_all
      moreover have "0 \<le> alpha ?f * alphaDecay lib"
        using \<open>0 \<le> alpha ?f\<close> assms(1) by simp
      ultimately show ?thesis
        using True by (simp add: advance_fields)
    qed
  qed
  have exact: "\<forall>n. running ((advance lib ^^ n) e) \<longrightarrow>
      alpha ((advance lib ^^ n) e) = (1 - alphaDecay lib) ^ n"
    using inv by blast
  have bound: "\<not> running ((advance lib ^^ n) e) \<and>
      alpha ((advance lib ^^ n) e) < alphaMin lib \<and>
      (advance lib ^^ n) e = (advance lib ^^ N) e"
    if "0 < N" and small: "(1 - alphaDecay lib) ^ N < alphaMin lib" and "N \<le> n" for N n
  proof -
    have idle: "\<not> running ((advance lib ^^ N) e)"
    proof
      assume r: "running ((advance lib ^^ N) e)"
      with inv [of N] \<open>0 < N\<close> have "alphaMin lib \<le> (1 - alphaDecay lib) ^ N" by simp
      with small show False by simp
    qed
    from advance_stays_idle [OF idle \<open>N \<le> n\<close>]
    have same: "(advance lib ^^ n) e = (advance lib ^^ N) e" .
    with idle inv [of N] show ?thesis by simp
  qed
  have "\<exists>N. (1 - alphaDecay lib) ^ N < alphaMin lib"
    using real_arch_pow_inv [of "alphaMin lib" "1 - alphaDecay lib"] assms(1,3) by simp
  then obtain N where N: "(1 - alphaDecay lib) ^ N < alphaMin lib" ..
  have "(1 - alphaDecay lib) ^ Suc N \<le> (1 - alphaDecay lib) ^ N"
    using assms(1,2) by (simp add: mult_left_le_one_le)
  with N have "(1 - alphaDecay lib) ^ Suc N < alphaMin lib" by simp
  with bound [of "Suc N"] have ex: "\<exists>N. \<forall>n\<ge>N. \<not> running ((advance lib ^^ n) e) \<and>
      alpha ((advance lib ^^ n) e) < alphaMin lib"
    by blast
  from mono exact bound ex show ?thesis by blast
qed

theorem alpha_decays_to_idle_witness:
  "0 < alphaDecay sample_library \<and> alphaDecay sample_library < 1 \<and> 0 < alphaMin sample_library \<and>
   alpha (restart (set_alpha 1 (forceSimulation sample_library []))) = 1 \<and>
   alphaTarget (restart (set_alpha 1 (forceSimulation sample_library []))) = 0 \<and>
   running (restart (set_alpha 1 (forceSimulation sample_library []))) \<and>
   \<not> running ((advance sample_library ^^ 10) (restart (set_alpha 1 (forceSimulation sample_library [])))) \<and>
   alpha ((advance sample_library ^^ 10) (restart (set_alpha 1 (forceSimulation sample_library []))))
     < 1 / 1000"
proof -
  let ?e = "restart (set_alpha 1 (forceSimulation sample_library []))"
  have h: "0 < alphaDecay sample_library" "alphaDecay sample_library < 1"
    "0 < alphaMin sample_library" "alpha ?e = 1" "alphaTarget ?e = 0" "running ?e"
    by (simp_all add: sample_library_def restart_def set_alpha_def forceSimulation_def)
  have small: "(0::nat) < 10 \<and> (1 - alphaDecay sample_library) ^ 10 < alphaMin sample_library \<and>
      (10::nat) \<le> 10"
    by (simp add: sample_library_def power_divide)
  from alpha_decays_to_idle [OF h] small
  have "\<not> running ((advance sample_library ^^ 10) ?e) \<and>
      alpha ((advance sample_library ^^ 10) ?e) < alphaMin sample_library"
    by blast
  with h show ?thesis by (simp add: sample_library_def)
qed

subsection \<open>Evaluating the model\<close>

lemmas model_defs =
  mount_def initial_def fetchGraphData_def fetch_resolved_def fetch_rejected_def handleRefresh_def
  render_def zoom_effect_def blank_def zoomIdentity_def translate_def scale_def
  graph_effect_def stop_at_def forceSimulation_def initializeNode_def resolve_links.simps
  find_node_def restart_def set_alpha_def set_alphaTarget_def stop_def
  on_drawn_def has_node_def click_node_def node_click_def svg_click_def close_panel_def
  zoomBehavior_def setZoom_def handleZoomIn_def handleZoomOut_def
  dragstarted_def dragged_def dragended_def pin_def
  sample_library_def sample_graph_def dangling_graph_def bare_graph_def sample_node_def
  sample_link_def entries_throws_def render_failed_def drawing_def
  selection_def button_scale_def view_scale_def Let_def

subsection \<open>What the handlers leave alone\<close>

lemma render_fields:
  "graphData (render c) = graphData c" "loading (render c) = loading c"
  "error (render c) = error c" "selectedNode (render c) = selectedNode c"
  "zoom (render c) = zoom c" "simulationRef (render c) = simulationRef c"
  "requests (render c) = requests c" "pending (render c) = pending c"
  by (simp_all add: render_def split: option.splits)

lemma zoom_effect_fields:
  "graphData (zoom_effect c) = graphData c" "loading (zoom_effect c) = loading c"
  "error (zoom_effect c) = error c" "selectedNode (zoom_effect c) = selectedNode c"
  "zoom (zoom_effect c) = zoom c" "simulationRef (zoom_effect c) = simulationRef c"
  "requests (zoom_effect c) = requests c" "pending (zoom_effect c) = pending c"
  by (simp_all add: zoom_effect_def Let_def split: option.splits)

lemma setZoom_fields:
  "graphData (setZoom f c) = graphData c" "loading (setZoom f c) = loading c"
  "error (setZoom f c) = error c" "selectedNode (setZoom f c) = selectedNode c"
  "zoom (setZoom f c) = f (zoom c)" "simulationRef (setZoom f c) = simulationRef c"
  "requests (setZoom f c) = requests c" "pending (setZoom f c) = pending c"
  by (simp_all add: setZoom_def render_fields zoom_effect_fields)

lemma fetchGraphData_fields:
  "graphData (fetchGraphData c) = graphData c" "loading (fetchGraphData c) = True"
  "error (fetchGraphData c) = None" "selectedNode (fetchGraphData c) = selectedNode c"
  "zoom (fetchGraphData c) = zoom c" "simulationRef (fetchGraphData c) = simulationRef c"
  "requests (fetchGraphData c) = Suc (requests c)" "pending (fetchGraphData c) = Suc (pending c)"
  "svgRef (fetchGraphData c) = None"
  by (simp_all add: fetchGraphData_def render_fields) (simp add: render_def)

lemma fetch_rejected_fields:
  "graphData (fetch_rejected c) = graphData c" "loading (fetch_rejected c) = False"
  "error (fetch_rejected c) = Some ''Failed to load relationship graph data. Please try again.''"
  "selectedNode (fetch_rejected c) = selectedNode c"
  "zoom (fetch_rejected c) = zoom c" "simulationRef (fetch_rejected c) = simulationRef c"
  "requests (fetch_rejected c) = requests c" "pending (fetch_rejected c) = pending c - 1"
  by (simp_all add: fetch_rejected_def render_fields)

lemma fetch_resolved_fields:
  "graphData (fetch_resolved g c) = Some g" "loading (fetch_resolved g c) = False"
  "error (fetch_resolved g c) = error c" "selectedNode (fetch_resolved g c) = selectedNode c"
  "zoom (fetch_resolved g c) = zoom c" "simulationRef (fetch_resolved g c) = simulationRef c"
  "requests (fetch_resolved g c) = requests c" "pending (fetch_resolved g c) = pending c - 1"
  "svgRef (fetch_resolved g c) \<noteq> None"
  by (simp_all add: fetch_resolved_def render_fields) (simp add: render_def split: option.splits)

lemma graph_effect_fields:
  assumes "mounted (graph_effect lib sys c) = Some c'"
  shows "graphData c' = graphData c" "loading c' = loading c" "error c' = error c"
    "selectedNode c' = selectedNode c" "zoom c' = zoom c"
    "requests c' = requests c" "pending c' = pending c"
  using assms
  by (auto simp: graph_effect_def Let_def split: option.splits sum.splits)

lemma click_fields:
  "click_node e i c = c\<lparr> selectedNode := Some (e, i) \<rparr>"
  "svg_click c = c\<lparr> selectedNode := None \<rparr>"
  "close_panel c = c\<lparr> selectedNode := None \<rparr>"
  by (simp_all add: click_node_def node_click_def svg_click_def close_panel_def)

lemma step_unmounted: "mounted sys = None \<Longrightarrow> mounted (step lib sys ev) = None"
  by (cases ev) (simp_all add: has_node_def)

lemma step_mounted_cases:
  assumes "mounted sys = Some c" and "mounted (step lib sys ev) = Some c'"
  shows "(\<exists>g. ev = FetchResolved g \<and> pending c \<noteq> 0 \<and>
              mounted (graph_effect lib sys (fetch_resolved g c)) = Some c') \<or>
         (ev = FetchRejected \<and> pending c \<noteq> 0 \<and> c' = fetch_rejected c) \<or>
         (ev = Refresh \<and> c' = fetchGraphData c) \<or>
         (ev = ZoomIn \<and> c' = setZoom handleZoomIn c) \<or>
         (ev = ZoomOut \<and> c' = setZoom handleZoomOut c) \<or>
         (\<exists>f px py s e. ev = Gesture f px py \<and> svgRef c = Some s \<and> drawn s = Some e \<and>
              c' = c\<lparr> svgRef := Some (zoomBehavior f px py s) \<rparr>) \<or>
         (\<exists>i s e. ev = NodeClick i \<and> svgRef c = Some s \<and> drawn s = Some e \<and>
              has_node (simulations sys) e i \<and>
              \<not> entries_throws (node_properties (sim_nodes (simulations sys ! e) ! i)) \<and>
              c' = c\<lparr> selectedNode := Some (e, i) \<rparr>) \<or>
         (\<exists>s e. ev = BackgroundClick \<and> svgRef c = Some s \<and> drawn s = Some e \<and>
              c' = c\<lparr> selectedNode := None \<rparr>) \<or>
         (ev = Close \<and> selectedNode c \<noteq> None \<and> \<not> loading c \<and> c' = c\<lparr> selectedNode := None \<rparr>) \<or>
         (ev \<noteq> Refresh \<and> ev \<noteq> ZoomIn \<and> ev \<noteq> ZoomOut \<and> ev \<noteq> Unmount \<and>
            (\<forall>g. ev = FetchResolved g \<longrightarrow> pending c = 0) \<and> c' = c)"
proof (cases ev)
  case (FetchResolved g)
  with assms show ?thesis by (cases "pending c = 0") simp_all
next
  case FetchRejected
  with assms show ?thesis by (cases "pending c = 0") auto
next
  case Refresh
  with assms show ?thesis by (auto simp: handleRefresh_def)
next
  case ZoomIn
  with assms show ?thesis by auto
next
  case ZoomOut
  with assms show ?thesis by auto
next
  case (Gesture f px py)
  with assms show ?thesis by (auto simp: on_drawn_def split: option.splits)
next
  case (NodeClick i)
  with assms show ?thesis
    by (auto simp: on_drawn_def click_fields render_failed_def split: option.splits if_splits)
next
  case BackgroundClick
  with assms show ?thesis by (auto simp: on_drawn_def click_fields split: option.splits)
next
  case Close
  with assms show ?thesis by (auto simp: click_fields split: if_splits)
next
  case (DragStart active e i)
  with assms show ?thesis by (auto simp: on_drawn_def split: option.splits if_splits)
next
  case (Drag e i px py)
  with assms show ?thesis by (auto split: if_splits)
next
  case (DragEnd active e i px py)
  with assms show ?thesis by (auto split: if_splits)
next
  case Frame
  with assms show ?thesis by auto
next
  case Unmount
  with assms show ?thesis by auto
qed

lemma step_zoom:
  assumes "mounted sys = Some c" and "mounted (step lib sys ev) = Some c'"
  shows "zoom c' = press (zoom c) ev"
  using step_mounted_cases [OF assms]
  by (auto simp: press_def setZoom_fields fetchGraphData_fields fetch_rejected_fields
      fetch_resolved_fields dest: graph_effect_fields(5))

lemma step_requests:
  assumes "mounted sys = Some c" and "mounted (step lib sys ev) = Some c'"
  shows "requests c' = (if ev = Refresh then Suc (requests c) else requests c)"
  using step_mounted_cases [OF assms]
  by (auto simp: setZoom_fields fetchGraphData_fields fetch_rejected_fields
      fetch_resolved_fields dest: graph_effect_fields(6))

lemma step_selection:
  assumes "mounted sys = Some c" and "mounted (step lib sys ev) = Some c'"
    and "selectedNode c' \<noteq> selectedNode c"
  shows "(\<exists>i. ev = NodeClick i) \<or> ev = BackgroundClick \<or> ev = Close"
  using step_mounted_cases [OF assms(1,2)] assms(3)
  by (auto simp: setZoom_fields fetchGraphData_fields fetch_rejected_fields
      fetch_resolved_fields dest: graph_effect_fields(4))

subsection \<open>Traces of a mounted component\<close>

lemma run_unmounted: "mounted sys = None \<Longrightarrow> mounted (run lib sys evs) = None"
  by (induction evs arbitrary: sys) (simp_all add: step_unmounted)

lemma run_append: "run lib sys (evs @ evs') = run lib (run lib sys evs) evs'"
  by (induction evs arbitrary: sys) simp_all

lemma run_zoom:
  "mounted sys = Some c \<Longrightarrow> mounted (run lib sys evs) = Some c' \<Longrightarrow>
   zoom c' = foldl press (zoom c) evs"
proof (induction evs arbitrary: sys c)
  case Nil
  then show ?case by simp
next
  case (Cons ev evs)
  show ?case
  proof (cases "mounted (step lib sys ev)")
    case None
    from run_unmounted [OF this, of lib evs] Cons.prems(2) show ?thesis by simp
  next
    case (Some c1)
    from step_zoom [OF Cons.prems(1) Some] have "zoom c1 = press (zoom c) ev" .
    moreover from Cons.IH [OF Some] Cons.prems(2) have "zoom c' = foldl press (zoom c1) evs"
      by simp
    ultimately show ?thesis by simp
  qed
qed

subsection \<open>Zoom buttons\<close>

lemma press_bounds:
  "5 / 10 \<le> z \<Longrightarrow> z \<le> 3 \<Longrightarrow> 5 / 10 \<le> press z ev \<and> press z ev \<le> 3"
  by (auto simp: press_def handleZoomIn_def handleZoomOut_def min_def max_def)

lemma foldl_press_bounds:
  "5 / 10 \<le> z \<Longrightarrow> z \<le> 3 \<Longrightarrow> 5 / 10 \<le> foldl press z evs \<and> foldl press z evs \<le> 3"
proof (induction evs arbitrary: z)
  case Nil
  then show ?case by simp
next
  case (Cons ev evs)
  from press_bounds [OF Cons.prems] Cons.IH [of "press z ev"] show ?case by simp
qed

lemma mount_zoom: "\<exists>c. mounted mount = Some c \<and> zoom c = 1"
  by (simp add: mount_def fetchGraphData_fields zoom_effect_fields initial_def)

text \<open>
  C6. Each press of a zoom button moves the zoom state by 0.2 and clamps it to
  \<open>[0.5, 3]\<close>. The zoom state after any sequence of events on a mounted component is the
  fold of the presses in it over the initial value 1, and every such fold lies between
  0.5 and 3.
\<close>

theorem zoom_buttons_bounded:
  "(\<forall>z. handleZoomIn z = (if z + 2 / 10 \<le> 3 then z + 2 / 10 else 3) \<and>
        handleZoomOut z = (if 5 / 10 \<le> z - 2 / 10 then z - 2 / 10 else 5 / 10)) \<and>
   (\<forall>evs. 5 / 10 \<le> foldl press 1 evs \<and> foldl press 1 evs \<le> 3) \<and>
   (\<forall>evs c. mounted (run lib mount evs) = Some c \<longrightarrow> zoom c = foldl press 1 evs)"
proof -
  have handlers: "\<forall>z. handleZoomIn z = (if z + 2 / 10 \<le> 3 then z + 2 / 10 else 3) \<and>
      handleZoomOut z = (if 5 / 10 \<le> z - 2 / 10 then z - 2 / 10 else 5 / 10)"
    by (simp add: handleZoomIn_def handleZoomOut_def min_def max_def)
  have bounds: "\<forall>evs. 5 / 10 \<le> foldl press 1 evs \<and> foldl press 1 evs \<le> 3"
    using foldl_press_bounds [of 1] by simp
  have state: "\<forall>evs c. mounted (run lib mount evs) = Some c \<longrightarrow> zoom c = foldl press 1 evs"
  proof (intro allI impI)
    fix evs c
    assume r: "mounted (run lib mount evs) = Some c"
    obtain c0 where "mounted mount = Some c0" and "zoom c0 = 1"
      using mount_zoom by blast
    with run_zoom [OF this(1) r] show "zoom c = foldl press 1 evs" by simp
  qed
  from handlers bounds state show ?thesis by blast
qed

theorem zoom_buttons_bounded_witness:
  "button_scale (run sample_library mount [ZoomOut, ZoomOut, ZoomOut, ZoomIn]) = Some (7 / 10) \<and>
   foldl press 1 [ZoomOut, ZoomOut, ZoomOut, ZoomIn] = 7 / 10"
proof -
  let ?evs = "[ZoomOut, ZoomOut, ZoomOut, ZoomIn]"
  have "mounted (run sample_library mount ?evs) \<noteq> None"
    by (simp add: model_defs)
  then obtain c where c: "mounted (run sample_library mount ?evs) = Some c"
    by blast
  with zoom_buttons_bounded [of sample_library] have "zoom c = foldl press 1 ?evs"
    by blast
  moreover have "foldl press 1 ?evs = 7 / 10"
    by (simp add: press_def handleZoomIn_def handleZoomOut_def)
  ultimately show ?thesis
    using c by (simp add: button_scale_def)
qed

subsection \<open>A failed fetch\<close>

lemma fetch_rejected_svg:
  "svgRef (fetch_rejected c) = (case svgRef c of None \<Rightarrow> Some blank | Some s \<Rightarrow> Some s)"
  by (simp add: fetch_rejected_def render_def split: option.splits)

text \<open>
  C9, as stated, fails for the drawing. With a graph drawn, the refresh control is pressed
  and the request rejects: \<open>graphData\<close> is still the fetched graph and its simulation is
  still there, but the \<^verbatim>\<open>svg\<close> on screen is a new, empty element and carries no drawing.
\<close>

theorem failed_refresh_loses_drawing:
  "drawing (run sample_library mount [FetchResolved sample_graph]) = Some 0 \<and>
   drawing (run sample_library mount [FetchResolved sample_graph, Refresh, FetchRejected]) = None \<and>
   map_option svgRef
     (mounted (run sample_library mount [FetchResolved sample_graph, Refresh, FetchRejected]))
     = Some (Some blank) \<and>
   map_option graphData
     (mounted (run sample_library mount [FetchResolved sample_graph, Refresh, FetchRejected]))
     = Some (Some sample_graph) \<and>
   length (simulations
     (run sample_library mount [FetchResolved sample_graph, Refresh, FetchRejected])) = 1"
  by (simp add: model_defs enumerate_eq_zip)

text \<open>
  C9, amended. When a pending request rejects, the component has \<open>loading\<close> false and the
  error message set, \<open>graphData\<close> and the simulations are as before, and no request is
  issued; the only event that issues a request is the refresh control. The \<^verbatim>\<open>svg\<close> is the
  one that was mounted, or a new, empty one when none was. The refresh control removes the
  \<^verbatim>\<open>svg\<close>, so a refresh that fails ends with an empty \<^verbatim>\<open>svg\<close> and no drawing, the fetched
  data and the simulations unchanged.
\<close>

theorem failed_fetch_state:
  "(\<forall>sys c. mounted sys = Some c \<and> pending c \<noteq> 0 \<longrightarrow>
        mounted (step lib sys FetchRejected) = Some (fetch_rejected c) \<and>
        simulations (step lib sys FetchRejected) = simulations sys \<and>
        loading (fetch_rejected c) = False \<and>
        error (fetch_rejected c) =
          Some ''Failed to load relationship graph data. Please try again.'' \<and>
        graphData (fetch_rejected c) = graphData c \<and>
        requests (fetch_rejected c) = requests c \<and>
        svgRef (fetch_rejected c) = (case svgRef c of None \<Rightarrow> Some blank | Some s \<Rightarrow> Some s)) \<and>
   (\<forall>sys c ev c'. mounted sys = Some c \<and> mounted (step lib sys ev) = Some c' \<and>
        requests c' \<noteq> requests c \<longrightarrow> ev = Refresh) \<and>
   (\<forall>sys c. mounted sys = Some c \<longrightarrow>
        mounted (run lib sys [Refresh, FetchRejected]) = Some (fetch_rejected (handleRefresh c)) \<and>
        simulations (run lib sys [Refresh, FetchRejected]) = simulations sys \<and>
        graphData (fetch_rejected (handleRefresh c)) = graphData c \<and>
        loading (fetch_rejected (handleRefresh c)) = False \<and>
        error (fetch_rejected (handleRefresh c)) =
          Some ''Failed to load relationship graph data. Please try again.'' \<and>
        requests (fetch_rejected (handleRefresh c)) = Suc (requests c) \<and>
        svgRef (fetch_rejected (handleRefresh c)) = Some blank \<and>
        drawing (run lib sys [Refresh, FetchRejected]) = None)"
proof -
  have rejected: "\<forall>sys c. mounted sys = Some c \<and> pending c \<noteq> 0 \<longrightarrow>
        mounted (step lib sys FetchRejected) = Some (fetch_rejected c) \<and>
        simulations (step lib sys FetchRejected) = simulations sys \<and>
        loading (fetch_rejected c) = False \<and>
        error (fetch_rejected c) =
          Some ''Failed to load relationship graph data. Please try again.'' \<and>
        graphData (fetch_rejected c) = graphData c \<and>
        requests (fetch_rejected c) = requests c \<and>
        svgRef (fetch_rejected c) = (case svgRef c of None \<Rightarrow> Some blank | Some s \<Rightarrow> Some s)"
    by (simp add: fetch_rejected_fields fetch_rejected_svg)
  have only_refresh: "\<forall>sys c ev c'. mounted sys = Some c \<and> mounted (step lib sys ev) = Some c' \<and>
        requests c' \<noteq> requests c \<longrightarrow> ev = Refresh"
  proof (intro allI impI)
    fix sys c ev c'
    assume a: "mounted sys = Some c \<and> mounted (step lib sys ev) = Some c' \<and>
        requests c' \<noteq> requests c"
    then have "requests c' = (if ev = Refresh then Suc (requests c) else requests c)"
      using step_requests by blast
    with a show "ev = Refresh" by (simp split: if_splits)
  qed
  have failed_refresh: "mounted (run lib sys [Refresh, FetchRejected])
          = Some (fetch_rejected (handleRefresh c)) \<and>
        simulations (run lib sys [Refresh, FetchRejected]) = simulations sys \<and>
        graphData (fetch_rejected (handleRefresh c)) = graphData c \<and>
        loading (fetch_rejected (handleRefresh c)) = False \<and>
        error (fetch_rejected (handleRefresh c)) =
          Some ''Failed to load relationship graph data. Please try again.'' \<and>
        requests (fetch_rejected (handleRefresh c)) = Suc (requests c) \<and>
        svgRef (fetch_rejected (handleRefresh c)) = Some blank \<and>
        drawing (run lib sys [Refresh, FetchRejected]) = None"
    if m: "mounted sys = Some c" for sys c
  proof -
    have r: "mounted (run lib sys [Refresh, FetchRejected]) = Some (fetch_rejected (handleRefresh c))"
      "simulations (run lib sys [Refresh, FetchRejected]) = simulations sys"
      using m by (simp_all add: handleRefresh_def fetchGraphData_fields)
    have v: "svgRef (fetch_rejected (handleRefresh c)) = Some blank"
      by (simp add: fetch_rejected_svg handleRefresh_def fetchGraphData_fields)
    have "drawing (run lib sys [Refresh, FetchRejected]) = None"
      unfolding drawing_def r(1) using v by (simp add: blank_def)
    with r v show ?thesis
      by (simp add: fetch_rejected_fields handleRefresh_def fetchGraphData_fields
          del: run.simps step.simps)
  qed
  from rejected only_refresh failed_refresh show ?thesis by blast
qed

theorem failed_fetch_state_witness:
  "map_option loading
     (mounted (run sample_library mount [FetchResolved sample_graph, Refresh, FetchRejected]))
     = Some False \<and>
   map_option error
     (mounted (run sample_library mount [FetchResolved sample_graph, Refresh, FetchRejected]))
     = Some (Some ''Failed to load relationship graph data. Please try again.'') \<and>
   map_option graphData
     (mounted (run sample_library mount [FetchResolved sample_graph, Refresh, FetchRejected]))
     = Some (Some sample_graph) \<and>
   map_option requests
     (mounted (run sample_library mount [FetchResolved sample_graph, Refresh, FetchRejected]))
     = Some 2 \<and>
   map_option svgRef
     (mounted (run sample_library mount [FetchResolved sample_graph, Refresh, FetchRejected]))
     = Some (Some blank) \<and>
   drawing (run sample_library mount [FetchResolved sample_graph, Refresh, FetchRejected]) = None \<and>
   simulations (step sample_library
       (run sample_library mount [FetchResolved sample_graph, Refresh]) FetchRejected)
     = simulations (run sample_library mount [FetchResolved sample_graph, Refresh])"
proof -
  let ?sys = "run sample_library mount [FetchResolved sample_graph]"
  let ?sys' = "run sample_library mount [FetchResolved sample_graph, Refresh]"
  have "mounted ?sys \<noteq> None" "mounted ?sys' \<noteq> None"
    by (simp_all add: model_defs enumerate_eq_zip)
  then obtain c c' where c: "mounted ?sys = Some c" and c': "mounted ?sys' = Some c'"
    by blast
  have "pending c' \<noteq> 0"
    using c' by (auto simp: model_defs enumerate_eq_zip)
  with failed_fetch_state [of sample_library] c'
  have kept: "simulations (step sample_library ?sys' FetchRejected) = simulations ?sys'"
    by blast
  have fields: "graphData c = Some sample_graph" "requests c = 1"
    using c by (auto simp: model_defs enumerate_eq_zip)
  from failed_fetch_state [of sample_library] c
  have "mounted (run sample_library ?sys [Refresh, FetchRejected])
          = Some (fetch_rejected (handleRefresh c)) \<and>
        graphData (fetch_rejected (handleRefresh c)) = graphData c \<and>
        loading (fetch_rejected (handleRefresh c)) = False \<and>
        error (fetch_rejected (handleRefresh c)) =
          Some ''Failed to load relationship graph data. Please try again.'' \<and>
        requests (fetch_rejected (handleRefresh c)) = Suc (requests c) \<and>
        svgRef (fetch_rejected (handleRefresh c)) = Some blank \<and>
        drawing (run sample_library ?sys [Refresh, FetchRejected]) = None"
    by blast
  moreover have "run sample_library mount [FetchResolved sample_graph, Refresh, FetchRejected]
      = run sample_library ?sys [Refresh, FetchRejected]"
    using run_append [of sample_library mount "[FetchResolved sample_graph]"
        "[Refresh, FetchRejected]"]
    by (simp del: run.simps step.simps)
  ultimately show ?thesis
    using fields kept by (simp del: run.simps step.simps)
qed

subsection \<open>Selection\<close>

text \<open>
  Two inputs on which a click does not do what the selection protocol says. A click on
  a node that came without \<^verbatim>\<open>properties\<close> takes the component down with a \<^verbatim>\<open>TypeError\<close>,
  while the other node of the same graph can be selected. After a refresh that failed, the
  empty \<^verbatim>\<open>svg\<close> has no click listener: a click on the background leaves the selection, and
  the Close button still clears it.
\<close>

lemma click_on_node_without_properties:
  "mounted (run sample_library mount [FetchResolved bare_graph, NodeClick 1]) = None \<and>
   uncaught (run sample_library mount [FetchResolved bare_graph, NodeClick 1]) = Some TypeError \<and>
   selection (run sample_library mount [FetchResolved bare_graph, NodeClick 0]) = Some (0, 0)"
  by (simp add: model_defs enumerate_eq_zip)

lemma background_click_on_empty_svg:
  "selection (run sample_library mount
     [FetchResolved sample_graph, NodeClick 0, Refresh, FetchRejected, BackgroundClick])
     = Some (0, 0) \<and>
   selection (run sample_library mount
     [FetchResolved sample_graph, NodeClick 0, Refresh, FetchRejected, Close]) = None"
  by (simp add: model_defs enumerate_eq_zip)

text \<open>
  C5, as stated, fails on a refresh. Node 0, whose \<^verbatim>\<open>properties\<close> is an empty object, is
  selected, the refresh control is pressed and the request resolves: the model is rebuilt
  (\<open>simulationRef\<close> is the second simulation) and the selection still refers to node 0 of
  the first.
\<close>

theorem selection_not_cleared_by_refresh:
  "selection (run sample_library mount [FetchResolved sample_graph, NodeClick 0]) = Some (0, 0) \<and>
   selection (run sample_library mount
     [FetchResolved sample_graph, NodeClick 0, Refresh, FetchResolved sample_graph]) = Some (0, 0) \<and>
   map_option simulationRef (mounted (run sample_library mount
     [FetchResolved sample_graph, NodeClick 0, Refresh, FetchResolved sample_graph])) = Some (Some 1) \<and>
   uncaught (run sample_library mount
     [FetchResolved sample_graph, NodeClick 0, Refresh, FetchResolved sample_graph]) = None"
  by (simp add: model_defs enumerate_eq_zip)

text \<open>
  C5, amended. The selection is one node or none. On an \<^verbatim>\<open>svg\<close> that carries the drawing, a
  click on the background clears it, and a click on a node whose \<^verbatim>\<open>properties\<close> is neither
  absent nor null sets it to that node, the node listener stopping the click before the
  \<^verbatim>\<open>svg\<close> listener; the Close button clears it; after unmounting there is none. A resolved
  request that rebuilds the model leaves the selection as it was: only the two clicks and
  Close change it while the component lasts.
\<close>

theorem selection_protocol:
  "(\<forall>sys c s e. mounted sys = Some c \<and> svgRef c = Some s \<and> drawn s = Some e \<longrightarrow>
        selection (step lib sys BackgroundClick) = None \<and>
        (\<forall>i. has_node (simulations sys) e i \<and>
             \<not> entries_throws (node_properties (sim_nodes (simulations sys ! e) ! i)) \<longrightarrow>
             selection (step lib sys (NodeClick i)) = Some (e, i) \<and>
             uncaught (step lib sys (NodeClick i)) = uncaught sys)) \<and>
   (\<forall>e i c. fst (node_click e i c) \<and> click_node e i c = snd (node_click e i c) \<and>
        selectedNode (click_node e i c) = Some (e, i)) \<and>
   (\<forall>sys c. mounted sys = Some c \<and> selectedNode c \<noteq> None \<and> \<not> loading c \<longrightarrow>
        selection (step lib sys Close) = None) \<and>
   (\<forall>sys. selection (step lib sys Unmount) = None) \<and>
   (\<forall>sys g. mounted (step lib sys (FetchResolved g)) \<noteq> None \<longrightarrow>
        selection (step lib sys (FetchResolved g)) = selection sys) \<and>
   (\<forall>sys ev. selection (step lib sys ev) \<noteq> selection sys \<longrightarrow>
        (\<exists>i. ev = NodeClick i) \<or> ev = BackgroundClick \<or> ev = Close \<or>
        mounted (step lib sys ev) = None)"
proof -
  have clicks: "\<forall>sys c s e. mounted sys = Some c \<and> svgRef c = Some s \<and> drawn s = Some e \<longrightarrow>
        selection (step lib sys BackgroundClick) = None \<and>
        (\<forall>i. has_node (simulations sys) e i \<and>
             \<not> entries_throws (node_properties (sim_nodes (simulations sys ! e) ! i)) \<longrightarrow>
             selection (step lib sys (NodeClick i)) = Some (e, i) \<and>
             uncaught (step lib sys (NodeClick i)) = uncaught sys)"
    by (simp add: selection_def on_drawn_def click_fields)
  have stopped: "\<forall>e i c. fst (node_click e i c) \<and> click_node e i c = snd (node_click e i c) \<and>
        selectedNode (click_node e i c) = Some (e, i)"
    by (simp add: node_click_def click_node_def)
  have closing: "\<forall>sys c. mounted sys = Some c \<and> selectedNode c \<noteq> None \<and> \<not> loading c \<longrightarrow>
        selection (step lib sys Close) = None"
    by (auto simp: selection_def click_fields)
  have teardown: "\<forall>sys. selection (step lib sys Unmount) = None"
    by (simp add: selection_def split: option.splits)
  have changes: "(\<exists>i. ev = NodeClick i) \<or> ev = BackgroundClick \<or> ev = Close \<or>
        mounted (step lib sys ev) = None"
    if diff: "selection (step lib sys ev) \<noteq> selection sys" for sys ev
  proof (cases "mounted sys")
    case None
    then show ?thesis by (simp add: step_unmounted)
  next
    case (Some c)
    show ?thesis
    proof (cases "mounted (step lib sys ev)")
      case None
      then show ?thesis by simp
    next
      case (Some c')
      with \<open>mounted sys = Some c\<close> diff have "selectedNode c' \<noteq> selectedNode c"
        by (simp add: selection_def)
      from step_selection [OF \<open>mounted sys = Some c\<close> Some this] show ?thesis by blast
    qed
  qed
  have refresh: "\<forall>sys g. mounted (step lib sys (FetchResolved g)) \<noteq> None \<longrightarrow>
        selection (step lib sys (FetchResolved g)) = selection sys"
  proof (intro allI impI)
    fix sys g
    assume "mounted (step lib sys (FetchResolved g)) \<noteq> None"
    with changes [of sys "FetchResolved g"]
    show "selection (step lib sys (FetchResolved g)) = selection sys"
      by (cases "selection (step lib sys (FetchResolved g)) = selection sys")
        (simp_all del: step.simps)
  qed
  from clicks stopped closing teardown refresh changes show ?thesis by blast
qed

theorem selection_protocol_witness:
  "selection (step sample_library
      (run sample_library mount [FetchResolved sample_graph, NodeClick 1]) BackgroundClick) = None \<and>
   selection (step sample_library
      (run sample_library mount [FetchResolved sample_graph]) (NodeClick 1)) = Some (0, 1) \<and>
   selection (step sample_library
      (run sample_library mount [FetchResolved sample_graph, NodeClick 1, Refresh])
         (FetchResolved sample_graph)) = Some (0, 1)"
proof -
  let ?s0 = "run sample_library mount [FetchResolved sample_graph]"
  let ?s1 = "run sample_library mount [FetchResolved sample_graph, NodeClick 1]"
  let ?s2 = "run sample_library mount [FetchResolved sample_graph, NodeClick 1, Refresh]"
  have "mounted ?s0 \<noteq> None" "mounted ?s1 \<noteq> None"
    by (simp_all add: model_defs enumerate_eq_zip)
  then obtain c0 c1 where c: "mounted ?s0 = Some c0" "mounted ?s1 = Some c1"
    by blast
  have "svgRef c0 \<noteq> None" "svgRef c1 \<noteq> None"
    using c by (auto simp: model_defs enumerate_eq_zip)
  then obtain v0 v1 where v: "svgRef c0 = Some v0" "svgRef c1 = Some v1"
    by blast
  have d: "drawn v0 = Some 0" "drawn v1 = Some 0"
    using c v by (auto simp: model_defs enumerate_eq_zip)
  have n: "has_node (simulations ?s0) 0 1"
    "\<not> entries_throws (node_properties (sim_nodes (simulations ?s0 ! 0) ! 1))"
    by (simp_all add: model_defs enumerate_eq_zip)
  have m: "mounted (step sample_library ?s2 (FetchResolved sample_graph)) \<noteq> None"
    by (simp add: model_defs enumerate_eq_zip)
  have sel: "selection ?s2 = Some (0, 1)"
    by (simp add: model_defs enumerate_eq_zip)
  note p = selection_protocol [of sample_library]
  from p c(2) v(2) d(2) have 1: "selection (step sample_library ?s1 BackgroundClick) = None"
    by blast
  from p c(1) v(1) d(1) n have 2: "selection (step sample_library ?s0 (NodeClick 1)) = Some (0, 1)"
    by blast
  from p m have "selection (step sample_library ?s2 (FetchResolved sample_graph)) = selection ?s2"
    by blast
  with sel have 3: "selection (step sample_library ?s2 (FetchResolved sample_graph)) = Some (0, 1)"
    by simp
  from 1 2 3 show ?thesis by blast
qed

subsection \<open>Two zoom paths\<close>

text \<open>
  C7, as stated, fails: after a wheel gesture that doubles the scale, the zoom state is
  still 1 while the transform stored on the \<^verbatim>\<open>svg\<close> has scale 2. The next press of the
  zoom-in button computes from the zoom state, not from the stored scale.
\<close>

theorem zoom_state_and_transform_differ:
  "button_scale (run sample_library mount [FetchResolved sample_graph, Gesture 2 0 0]) = Some 1 \<and>
   view_scale (run sample_library mount [FetchResolved sample_graph, Gesture 2 0 0]) = Some 2 \<and>
   button_scale (run sample_library mount [FetchResolved sample_graph, Gesture 2 0 0, ZoomIn])
     = Some (6 / 5) \<and>
   view_scale (run sample_library mount [FetchResolved sample_graph, Gesture 2 0 0, ZoomIn])
     = Some (6 / 5)"
  by (simp add: model_defs enumerate_eq_zip)

text \<open>
  C7, amended. The two paths keep two values. A pointer gesture leaves the zoom state
  alone and stores a transform whose scale is clamped to \<open>[0.1, 4]\<close>. A button press
  that changes the zoom state, on a mounted \<^verbatim>\<open>svg\<close>, overwrites the scale of the stored
  transform with the new zoom state and keeps its translation and the group's attribute.
\<close>

theorem zoom_paths:
  "(\<forall>sys f px py. button_scale (step lib sys (Gesture f px py)) = button_scale sys) \<and>
   (\<forall>sys c s e f px py. mounted sys = Some c \<and> svgRef c = Some s \<and> drawn s = Some e \<longrightarrow>
        view_scale (step lib sys (Gesture f px py))
          = Some (max (1 / 10) (min 4 (t_k (zoom_transform s) * f)))) \<and>
   (\<forall>sys c s. mounted sys = Some c \<and> svgRef c = Some s \<and> \<not> loading c \<and>
        handleZoomIn (zoom c) \<noteq> zoom c \<longrightarrow>
        button_scale (step lib sys ZoomIn) = Some (handleZoomIn (zoom c)) \<and>
        view_scale (step lib sys ZoomIn) = Some (handleZoomIn (zoom c)) \<and>
        mounted (step lib sys ZoomIn) =
          Some (c\<lparr> zoom := handleZoomIn (zoom c),
                   svgRef := Some (s\<lparr> zoom_transform :=
                     \<lparr> t_k = handleZoomIn (zoom c), t_x = t_x (zoom_transform s),
                       t_y = t_y (zoom_transform s) \<rparr> \<rparr>) \<rparr>)) \<and>
   (\<forall>sys c s. mounted sys = Some c \<and> svgRef c = Some s \<and> \<not> loading c \<and>
        handleZoomOut (zoom c) \<noteq> zoom c \<longrightarrow>
        button_scale (step lib sys ZoomOut) = Some (handleZoomOut (zoom c)) \<and>
        view_scale (step lib sys ZoomOut) = Some (handleZoomOut (zoom c)) \<and>
        mounted (step lib sys ZoomOut) =
          Some (c\<lparr> zoom := handleZoomOut (zoom c),
                   svgRef := Some (s\<lparr> zoom_transform :=
                     \<lparr> t_k = handleZoomOut (zoom c), t_x = t_x (zoom_transform s),
                       t_y = t_y (zoom_transform s) \<rparr> \<rparr>) \<rparr>))"
proof -
  have gesture_state: "\<forall>sys f px py. button_scale (step lib sys (Gesture f px py)) = button_scale sys"
    by (auto simp: button_scale_def on_drawn_def split: option.splits)
  have gesture_view: "\<forall>sys c s e f px py.
        mounted sys = Some c \<and> svgRef c = Some s \<and> drawn s = Some e \<longrightarrow>
        view_scale (step lib sys (Gesture f px py))
          = Some (max (1 / 10) (min 4 (t_k (zoom_transform s) * f)))"
    by (simp add: view_scale_def on_drawn_def zoomBehavior_def Let_def)
  have button: "button_scale (step lib sys ev) = Some (f (zoom c)) \<and>
        view_scale (step lib sys ev) = Some (f (zoom c)) \<and>
        mounted (step lib sys ev) =
          Some (c\<lparr> zoom := f (zoom c),
                   svgRef := Some (s\<lparr> zoom_transform :=
                     \<lparr> t_k = f (zoom c), t_x = t_x (zoom_transform s),
                       t_y = t_y (zoom_transform s) \<rparr> \<rparr>) \<rparr>)"
    if "mounted sys = Some c" "svgRef c = Some s" "\<not> loading c" "f (zoom c) \<noteq> zoom c"
      and ev: "ev = ZoomIn \<and> f = handleZoomIn \<or> ev = ZoomOut \<and> f = handleZoomOut"
    for sys c s ev f
  proof -
    have m: "mounted (step lib sys ev) = Some (setZoom f c)"
      using that(1) ev by auto
    have "setZoom f c = c\<lparr> zoom := f (zoom c),
                   svgRef := Some (s\<lparr> zoom_transform :=
                     \<lparr> t_k = f (zoom c), t_x = t_x (zoom_transform s),
                       t_y = t_y (zoom_transform s) \<rparr> \<rparr>) \<rparr>"
      using that(2,3,4)
      by (simp add: setZoom_def render_def zoom_effect_def Let_def scale_def translate_def
          zoomIdentity_def)
    with m show ?thesis
      by (simp add: button_scale_def view_scale_def del: step.simps)
  qed
  from gesture_state gesture_view button [where ev = ZoomIn and f = handleZoomIn]
    button [where ev = ZoomOut and f = handleZoomOut]
  show ?thesis by blast
qed

theorem zoom_paths_witness:
  "view_scale (step sample_library (run sample_library mount [FetchResolved sample_graph])
      (Gesture 100 5 7)) = Some 4 \<and>
   button_scale (step sample_library (run sample_library mount [FetchResolved sample_graph])
      (Gesture 100 5 7)) = Some 1 \<and>
   view_scale (step sample_library
      (run sample_library mount [FetchResolved sample_graph, Gesture 100 5 7]) ZoomOut)
      = Some (4 / 5)"
proof -
  let ?s0 = "run sample_library mount [FetchResolved sample_graph]"
  let ?s1 = "run sample_library mount [FetchResolved sample_graph, Gesture 100 5 7]"
  have "mounted ?s0 \<noteq> None" "mounted ?s1 \<noteq> None"
    by (simp_all add: model_defs enumerate_eq_zip)
  then obtain c0 c1 where c: "mounted ?s0 = Some c0" "mounted ?s1 = Some c1"
    by blast
  have "svgRef c0 \<noteq> None" "svgRef c1 \<noteq> None"
    using c by (auto simp: model_defs enumerate_eq_zip)
  then obtain v0 v1 where v: "svgRef c0 = Some v0" "svgRef c1 = Some v1"
    by blast
  have d: "drawn v0 = Some 0" "t_k (zoom_transform v0) = 1"
    using c v by (auto simp: model_defs enumerate_eq_zip)
  have z: "\<not> loading c1" "zoom c1 = 1" "zoom c0 = 1"
    using c by (auto simp: model_defs enumerate_eq_zip)
  have out: "handleZoomOut 1 = 4 / 5"
    by (simp add: handleZoomOut_def)
  note p = zoom_paths [of sample_library]
  from p c(1) v(1) d(1)
  have "view_scale (step sample_library ?s0 (Gesture 100 5 7))
      = Some (max (1 / 10) (min 4 (t_k (zoom_transform v0) * 100)))"
    by blast
  then have 1: "view_scale (step sample_library ?s0 (Gesture 100 5 7)) = Some 4"
    using d(2) by simp
  from p have "button_scale (step sample_library ?s0 (Gesture 100 5 7)) = button_scale ?s0"
    by blast
  then have 2: "button_scale (step sample_library ?s0 (Gesture 100 5 7)) = Some 1"
    using c(1) z(3) by (simp add: button_scale_def del: step.simps run.simps)
  have "handleZoomOut (zoom c1) \<noteq> zoom c1"
    using z(2) out by simp
  with p c(2) v(2) z(1)
  have "view_scale (step sample_library ?s1 ZoomOut) = Some (handleZoomOut (zoom c1))"
    by blast
  then have 3: "view_scale (step sample_library ?s1 ZoomOut) = Some (4 / 5)"
    using z(2) out by simp
  from 1 2 3 show ?thesis by blast
qed

subsection \<open>Link endpoints\<close>

lemma find_node_Some:
  "find_node ns k = Some i \<Longrightarrow> i < length ns \<and> node_id (ns ! i) = k"
proof -
  assume a: "find_node ns k = Some i"
  then obtain js where "filter (\<lambda>i. node_id (ns ! i) = k) (rev [0 ..< length ns]) = i # js"
    by (auto simp: find_node_def split: list.splits)
  then have "i \<in> set (filter (\<lambda>i. node_id (ns ! i) = k) (rev [0 ..< length ns]))"
    by simp
  then show ?thesis by simp
qed

lemma find_node_None: "find_node ns k = None \<longleftrightarrow> k \<notin> node_id ` set ns"
proof -
  have "find_node ns k = None \<longleftrightarrow>
      filter (\<lambda>i. node_id (ns ! i) = k) (rev [0 ..< length ns]) = []"
    by (simp add: find_node_def split: list.splits)
  also have "\<dots> \<longleftrightarrow> (\<forall>i < length ns. node_id (ns ! i) \<noteq> k)"
    by (auto simp: filter_empty_conv)
  also have "\<dots> \<longleftrightarrow> k \<notin> node_id ` set ns"
    by (metis image_iff in_set_conv_nth)
  finally show ?thesis .
qed

lemma resolve_links_ok:
  "endpoints ls \<subseteq> node_id ` set ns \<Longrightarrow>
   \<exists>rs. resolve_links ns ls = Inr rs \<and> list_all2 (resolved ns) ls rs"
proof (induction ls)
  case Nil
  then show ?case by simp
next
  case (Cons l ls)
  from Cons.prems have src: "link_source l \<in> node_id ` set ns"
    and tgt: "link_target l \<in> node_id ` set ns"
    and rest: "endpoints ls \<subseteq> node_id ` set ns"
    by (auto simp: endpoints_def)
  from src obtain s where s: "find_node ns (link_source l) = Some s"
    using find_node_None [of ns "link_source l"] by (cases "find_node ns (link_source l)") auto
  from tgt obtain t where t: "find_node ns (link_target l) = Some t"
    using find_node_None [of ns "link_target l"] by (cases "find_node ns (link_target l)") auto
  from Cons.IH [OF rest] obtain rs where rs: "resolve_links ns ls = Inr rs"
    "list_all2 (resolved ns) ls rs"
    by blast
  have "resolved ns l \<lparr> source_node = s, target_node = t, relation = link_type l,
      properties = link_properties l \<rparr>"
    using find_node_Some [OF s] find_node_Some [OF t] by (simp add: resolved_def)
  with s t rs show ?case
    by simp
qed

lemma resolve_links_missing:
  "\<not> endpoints ls \<subseteq> node_id ` set ns \<Longrightarrow>
   \<exists>k. resolve_links ns ls = Inl (InvalidReference k) \<and> k \<in> endpoints ls \<and> k \<notin> node_id ` set ns"
proof (induction ls)
  case Nil
  then show ?case by (simp add: endpoints_def)
next
  case (Cons l ls)
  show ?case
  proof (cases "find_node ns (link_source l)")
    case None
    then show ?thesis
      using find_node_None [of ns "link_source l"] by (auto simp: endpoints_def)
  next
    case s: (Some s)
    show ?thesis
    proof (cases "find_node ns (link_target l)")
      case None
      then show ?thesis
        using s find_node_None [of ns "link_target l"] by (auto simp: endpoints_def)
    next
      case t: (Some t)
      from s t have "link_source l \<in> node_id ` set ns" "link_target l \<in> node_id ` set ns"
        using find_node_None [of ns "link_source l"] find_node_None [of ns "link_target l"]
        by auto
      with Cons.prems have "\<not> endpoints ls \<subseteq> node_id ` set ns"
        by (auto simp: endpoints_def)
      from Cons.IH [OF this] obtain k where "resolve_links ns ls = Inl (InvalidReference k)"
        "k \<in> endpoints ls" "k \<notin> node_id ` set ns"
        by blast
      with s t show ?thesis by (auto simp: endpoints_def)
    qed
  qed
qed

lemma forceSimulation_ids:
  "node_id ` set (sim_nodes (forceSimulation lib ds)) = datum_id ` set ds"
proof -
  have "map node_id (sim_nodes (forceSimulation lib ds)) = map datum_id ds"
    by (rule nth_equalityI)
      (simp_all add: forceSimulation_def initializeNode_def Let_def nth_enumerate_eq
        split: prod.splits)
  then have "set (map node_id (sim_nodes (forceSimulation lib ds))) = set (map datum_id ds)"
    by simp
  then show ?thesis by simp
qed

text \<open>
  C8, as stated, fails in its last part: a link to a node that was not fetched makes the
  build raise, nothing catches it at the effect, the component is taken down and no error
  message is set. A graph whose links all resolve builds without an error.
\<close>

theorem dangling_link_escapes:
  "uncaught (run sample_library mount [FetchResolved dangling_graph])
     = Some (InvalidReference ''c'') \<and>
   mounted (run sample_library mount [FetchResolved dangling_graph]) = None \<and>
   length (simulations (run sample_library mount [FetchResolved dangling_graph])) = 1 \<and>
   uncaught (run sample_library mount [FetchResolved sample_graph]) = None"
  by (simp add: model_defs enumerate_eq_zip)

text \<open>
  C8, amended. When every endpoint names a fetched node, the build succeeds and the model
  has exactly the given links, in order, each endpoint resolved to a node with that id.
  When some endpoint names no fetched node, the whole build is rejected with
  \<open>InvalidReference\<close> for such an endpoint, whatever the other links are; the rejection
  leaves the effect uncaught and the component is unmounted.
\<close>

theorem build_policy:
  "(\<forall>ns ls. endpoints ls \<subseteq> node_id ` set ns \<longrightarrow>
        (\<exists>rs. resolve_links ns ls = Inr rs \<and> list_all2 (resolved ns) ls rs)) \<and>
   (\<forall>ns ls. \<not> endpoints ls \<subseteq> node_id ` set ns \<longrightarrow>
        (\<exists>k. resolve_links ns ls = Inl (InvalidReference k) \<and> k \<in> endpoints ls \<and>
             k \<notin> node_id ` set ns)) \<and>
   (\<forall>sys c g. mounted sys = Some c \<and> pending c \<noteq> 0 \<and>
        endpoints (graph_links g) \<subseteq> datum_id ` set (graph_nodes g) \<longrightarrow>
        (\<exists>c' rs. mounted (step lib sys (FetchResolved g)) = Some c' \<and>
             uncaught (step lib sys (FetchResolved g)) = uncaught sys \<and>
             simulationRef c' = Some (length (simulations sys)) \<and>
             length (simulations (step lib sys (FetchResolved g))) = Suc (length (simulations sys)) \<and>
             sim_links (last (simulations (step lib sys (FetchResolved g)))) = rs \<and>
             list_all2 (resolved (sim_nodes (last (simulations (step lib sys (FetchResolved g))))))
               (graph_links g) rs)) \<and>
   (\<forall>sys c g. mounted sys = Some c \<and> pending c \<noteq> 0 \<and>
        \<not> endpoints (graph_links g) \<subseteq> datum_id ` set (graph_nodes g) \<longrightarrow>
        mounted (step lib sys (FetchResolved g)) = None \<and>
        (\<exists>k. uncaught (step lib sys (FetchResolved g)) = Some (InvalidReference k) \<and>
             k \<in> endpoints (graph_links g) \<and> k \<notin> datum_id ` set (graph_nodes g)))"
proof -
  have ok: "\<forall>ns ls. endpoints ls \<subseteq> node_id ` set ns \<longrightarrow>
        (\<exists>rs. resolve_links ns ls = Inr rs \<and> list_all2 (resolved ns) ls rs)"
    using resolve_links_ok by blast
  have missing: "\<forall>ns ls. \<not> endpoints ls \<subseteq> node_id ` set ns \<longrightarrow>
        (\<exists>k. resolve_links ns ls = Inl (InvalidReference k) \<and> k \<in> endpoints ls \<and>
             k \<notin> node_id ` set ns)"
    using resolve_links_missing by blast
  have effect: "step lib sys (FetchResolved g) = graph_effect lib sys (fetch_resolved g c) \<and>
      graphData (fetch_resolved g c) = Some g \<and> svgRef (fetch_resolved g c) \<noteq> None"
    if "mounted sys = Some c" "pending c \<noteq> 0" for sys c g
    using that by (simp add: fetch_resolved_fields)
  have built: "\<exists>c' rs. mounted (step lib sys (FetchResolved g)) = Some c' \<and>
             uncaught (step lib sys (FetchResolved g)) = uncaught sys \<and>
             simulationRef c' = Some (length (simulations sys)) \<and>
             length (simulations (step lib sys (FetchResolved g))) = Suc (length (simulations sys)) \<and>
             sim_links (last (simulations (step lib sys (FetchResolved g)))) = rs \<and>
             list_all2 (resolved (sim_nodes (last (simulations (step lib sys (FetchResolved g))))))
               (graph_links g) rs"
    if m: "mounted sys = Some c" "pending c \<noteq> 0"
      and e: "endpoints (graph_links g) \<subseteq> datum_id ` set (graph_nodes g)" for sys c g
  proof -
    let ?e0 = "forceSimulation lib (graph_nodes g)"
    from e have "endpoints (graph_links g) \<subseteq> node_id ` set (sim_nodes ?e0)"
      by (simp add: forceSimulation_ids)
    from resolve_links_ok [OF this] obtain rs where
      rs: "resolve_links (sim_nodes ?e0) (graph_links g) = Inr rs"
        "list_all2 (resolved (sim_nodes ?e0)) (graph_links g) rs"
      by blast
    from effect [OF m, of g] obtain s where
      s: "svgRef (fetch_resolved g c) = Some s" and
      st: "step lib sys (FetchResolved g) = graph_effect lib sys (fetch_resolved g c)"
      by auto
    show ?thesis
      unfolding st
      using rs s
      by (simp add: graph_effect_def fetch_resolved_fields Let_def stop_at_def restart_def
          set_alpha_def split: option.splits)
  qed
  have rejected: "mounted (step lib sys (FetchResolved g)) = None \<and>
        (\<exists>k. uncaught (step lib sys (FetchResolved g)) = Some (InvalidReference k) \<and>
             k \<in> endpoints (graph_links g) \<and> k \<notin> datum_id ` set (graph_nodes g))"
    if m: "mounted sys = Some c" "pending c \<noteq> 0"
      and e: "\<not> endpoints (graph_links g) \<subseteq> datum_id ` set (graph_nodes g)" for sys c g
  proof -
    let ?e0 = "forceSimulation lib (graph_nodes g)"
    from e have "\<not> endpoints (graph_links g) \<subseteq> node_id ` set (sim_nodes ?e0)"
      by (simp add: forceSimulation_ids)
    from resolve_links_missing [OF this] obtain k where
      k: "resolve_links (sim_nodes ?e0) (graph_links g) = Inl (InvalidReference k)"
        "k \<in> endpoints (graph_links g)" "k \<notin> datum_id ` set (graph_nodes g)"
      by (auto simp: forceSimulation_ids)
    from effect [OF m, of g] obtain s where
      s: "svgRef (fetch_resolved g c) = Some s" and
      st: "step lib sys (FetchResolved g) = graph_effect lib sys (fetch_resolved g c)"
      by auto
    show ?thesis
      unfolding st
      using k s
      by (simp add: graph_effect_def fetch_resolved_fields Let_def)
  qed
  from ok missing built rejected show ?thesis by blast
qed

theorem build_policy_witness:
  "mounted (step sample_library mount (FetchResolved dangling_graph)) = None \<and>
   uncaught (step sample_library mount (FetchResolved dangling_graph))
     = Some (InvalidReference ''c'') \<and>
   mounted (step sample_library mount (FetchResolved sample_graph)) \<noteq> None \<and>
   uncaught (step sample_library mount (FetchResolved sample_graph)) = None"
proof -
  have "mounted mount \<noteq> None"
    by (simp add: mount_def)
  then obtain c where c: "mounted mount = Some c"
    by blast
  have p: "pending c \<noteq> 0" and u: "uncaught mount = None"
    using c by (auto simp: mount_def fetchGraphData_fields)
  have bad: "\<not> endpoints (graph_links dangling_graph) \<subseteq> datum_id ` set (graph_nodes dangling_graph)"
    by (simp add: endpoints_def dangling_graph_def sample_node_def sample_link_def)
  have good: "endpoints (graph_links sample_graph) \<subseteq> datum_id ` set (graph_nodes sample_graph)"
    by (simp add: endpoints_def sample_graph_def sample_node_def sample_link_def)
  note t = build_policy [of sample_library]
  from t c p bad
  have 1: "mounted (step sample_library mount (FetchResolved dangling_graph)) = None \<and>
        (\<exists>k. uncaught (step sample_library mount (FetchResolved dangling_graph))
               = Some (InvalidReference k) \<and>
             k \<in> endpoints (graph_links dangling_graph) \<and>
             k \<notin> datum_id ` set (graph_nodes dangling_graph))"
    by blast
  then have 2: "uncaught (step sample_library mount (FetchResolved dangling_graph))
      = Some (InvalidReference ''c'')"
    by (auto simp: endpoints_def dangling_graph_def sample_node_def sample_link_def
        simp del: step.simps)
  from t c p good
  have "\<exists>c'. mounted (step sample_library mount (FetchResolved sample_graph)) = Some c' \<and>
      uncaught (step sample_library mount (FetchResolved sample_graph)) = uncaught mount"
    by blast
  with 1 2 u show ?thesis
    by (auto simp del: step.simps)
qed

subsection \<open>One simulation at a time\<close>

lemma older_stopped_nth:
  "older_stopped es \<longleftrightarrow> (\<forall>i. Suc i < length es \<longrightarrow> \<not> running (es ! i))"
proof -
  have "older_stopped es \<longleftrightarrow> (\<forall>i < length (butlast es). \<not> running (butlast es ! i))"
    by (simp add: older_stopped_def list_all_length)
  also have "\<dots> \<longleftrightarrow> (\<forall>i. Suc i < length es \<longrightarrow> \<not> running (es ! i))"
    by (auto simp: nth_butlast)
  finally show ?thesis .
qed

lemma stop_idem: "stop (stop e) = stop e" "\<not> running (stop e)"
  by (simp_all add: stop_def)

lemma stop_stopped: "\<not> running e \<Longrightarrow> stop e = e"
  by (simp add: stop_def)

lemma advance_stopped: "(advance lib ^^ n) (stop e) = stop e"
  by (induction n) (simp_all add: advance_def stop_def)

lemma running_advance: "running (advance lib e) \<Longrightarrow> running e"
  by (simp add: advance_def stop_def Let_def split: if_splits)

lemma running_drag:
  "running (dragged i px py e) = running e"
  "running (dragended active i px py e) = running e"
  by (simp_all add: dragged_def dragended_def pin_def set_alphaTarget_def Let_def)

lemma length_stop_at: "length (stop_at r es) = length es"
  by (simp add: stop_at_def split: option.splits)

lemma stop_at_newest:
  "older_stopped es \<Longrightarrow> list_all (\<lambda>e. \<not> running e) (stop_at (newest es) es)"
proof -
  assume o: "older_stopped es"
  show ?thesis
  proof (cases "es = []")
    case True
    then show ?thesis by (simp add: stop_at_def newest_def)
  next
    case False
    then have l: "0 < length es" by simp
    have "\<not> running (stop_at (newest es) es ! j)" if "j < length es" for j
    proof (cases "Suc j = length es")
      case True
      then have "length es - Suc 0 = j" by simp
      with False that show ?thesis
        by (simp add: stop_at_def newest_def stop_def)
    next
      case n: False
      with that have "Suc j < length es" by simp
      with o have "\<not> running (es ! j)" by (simp add: older_stopped_nth)
      with False n that show ?thesis
        by (auto simp: stop_at_def newest_def nth_list_update)
    qed
    then show ?thesis
      by (simp add: list_all_length length_stop_at)
  qed
qed

lemma stop_at_all_stopped:
  "list_all (\<lambda>e. \<not> running e) es \<Longrightarrow> stop_at r es = es"
  by (auto simp: stop_at_def list_all_length stop_stopped split: option.splits)

lemma older_stopped_snoc:
  "list_all (\<lambda>e. \<not> running e) es \<Longrightarrow> older_stopped (es @ [e])"
  by (simp add: older_stopped_def)

lemma older_stopped_all: "list_all (\<lambda>e. \<not> running e) es \<Longrightarrow> older_stopped es"
  by (auto simp: older_stopped_nth list_all_length)

lemma older_stopped_update:
  assumes "older_stopped es" and "Suc k < length es \<longrightarrow> \<not> running e"
  shows "older_stopped (es[k := e])"
  unfolding older_stopped_nth
proof (intro allI impI)
  fix i
  assume "Suc i < length (es[k := e])"
  with assms show "\<not> running (es[k := e] ! i)"
    by (cases "i = k") (simp_all add: older_stopped_nth)
qed

lemma older_stopped_map:
  "older_stopped es \<Longrightarrow> (\<And>e. running (f e) \<Longrightarrow> running e) \<Longrightarrow> older_stopped (map f es)"
  by (auto simp: older_stopped_nth)

lemma stop_at_Nil: "stop_at r es = [] \<longleftrightarrow> es = []"
  by (metis length_stop_at length_0_conv)

lemma newest_simps:
  "newest (es[k := e]) = newest es" "newest (map f es) = newest es"
  "newest (stop_at r es) = newest es" "newest (es @ [e]) = Some (length es)"
  by (simp_all add: newest_def length_stop_at stop_at_Nil)

lemma current_is_newest_component:
  assumes "current_is_newest sys" and "mounted sys = Some c"
    and "simulationRef c' = simulationRef c"
    and "svgRef c' = None \<or> (\<exists>s'. svgRef c' = Some s' \<and> drawn s' = None) \<or>
         (\<exists>s s'. svgRef c = Some s \<and> svgRef c' = Some s' \<and> drawn s' = drawn s)"
  shows "current_is_newest (sys\<lparr> mounted := Some c' \<rparr>)"
  using assms by (auto simp: current_is_newest_def)

lemma current_is_newest_simulations:
  "newest es = newest (simulations sys) \<Longrightarrow>
   current_is_newest (sys\<lparr> simulations := es \<rparr>) = current_is_newest sys"
  by (cases "mounted sys") (simp_all add: current_is_newest_def)

lemma svg_cases:
  "svgRef (fetchGraphData c) = None"
  "svgRef (fetch_rejected c) = Some blank \<or> svgRef (fetch_rejected c) = svgRef c"
  "svgRef (fetch_resolved g c) = Some blank \<or> svgRef (fetch_resolved g c) = svgRef c"
  by (auto simp: fetchGraphData_def fetch_rejected_def fetch_resolved_def render_def
      split: option.splits)

lemma setZoom_svg:
  "svgRef (setZoom f c) = None \<or> (\<exists>s'. svgRef (setZoom f c) = Some s' \<and> drawn s' = None) \<or>
   (\<exists>s s'. svgRef c = Some s \<and> svgRef (setZoom f c) = Some s' \<and> drawn s' = drawn s)"
  by (auto simp: setZoom_def render_def zoom_effect_def Let_def zoomIdentity_def blank_def
      scale_def translate_def split: option.splits)

lemma graph_effect_one_at_a_time:
  assumes "older_stopped (simulations sys)" and "simulationRef c = newest (simulations sys)"
    and "case svgRef c of None \<Rightarrow> True | Some s \<Rightarrow> drawn s = None \<or> drawn s = simulationRef c"
  shows "one_at_a_time (graph_effect lib sys c)"
proof -
  let ?cleaned = "stop_at (simulationRef c) (simulations sys)"
  have all: "list_all (\<lambda>e. \<not> running e) ?cleaned"
    using stop_at_newest [OF assms(1)] assms(2) by simp
  then have cleaned: "older_stopped ?cleaned"
    by (rule older_stopped_all)
  show ?thesis
  proof (cases "graphData c")
    case None
    with assms cleaned show ?thesis
      by (simp add: graph_effect_def one_at_a_time_def current_is_newest_def newest_simps)
  next
    case g: (Some g)
    show ?thesis
    proof (cases "svgRef c")
      case None
      with g assms cleaned show ?thesis
        by (simp add: graph_effect_def one_at_a_time_def current_is_newest_def newest_simps)
    next
      case (Some s)
      let ?sims = "stop_at (simulationRef c) ?cleaned"
      from all have sims: "?sims = ?cleaned"
        by (rule stop_at_all_stopped)
      with all have "list_all (\<lambda>e. \<not> running e) ?sims" by simp
      then have o: "older_stopped (?sims @ [e])" for e
        by (rule older_stopped_snoc)
      show ?thesis
        using g Some o
        by (simp add: graph_effect_def one_at_a_time_def current_is_newest_def Let_def
            newest_simps split: sum.splits)
    qed
  qed
qed

lemma component_step_one_at_a_time:
  assumes inv: "one_at_a_time sys" and m: "mounted sys = Some c"
  shows "one_at_a_time (component_step lib sys c ev)"
proof -
  from inv have o: "older_stopped (simulations sys)" and n: "current_is_newest sys"
    by (simp_all add: one_at_a_time_def)
  from n m have r: "simulationRef c = newest (simulations sys)"
    and d: "case svgRef c of None \<Rightarrow> True | Some s \<Rightarrow> drawn s = None \<or> drawn s = simulationRef c"
    by (simp_all add: current_is_newest_def)
  have keep: "one_at_a_time (sys\<lparr> mounted := Some c' \<rparr>)"
    if "simulationRef c' = simulationRef c"
      "svgRef c' = None \<or> (\<exists>s'. svgRef c' = Some s' \<and> drawn s' = None) \<or>
         (\<exists>s s'. svgRef c = Some s \<and> svgRef c' = Some s' \<and> drawn s' = drawn s)" for c'
    using current_is_newest_component [OF n m that] o by (simp add: one_at_a_time_def)
  show ?thesis
  proof (cases ev)
    case (FetchResolved g)
    show ?thesis
    proof (cases "pending c = 0")
      case True
      with FetchResolved inv show ?thesis by simp
    next
      case False
      have "case svgRef (fetch_resolved g c) of None \<Rightarrow> True
          | Some s \<Rightarrow> drawn s = None \<or> drawn s = simulationRef (fetch_resolved g c)"
        using svg_cases(3) [of g c] d
        by (auto simp: fetch_resolved_fields blank_def split: option.splits)
      from graph_effect_one_at_a_time [OF o _ this, of lib] r False FetchResolved
      show ?thesis by (simp add: fetch_resolved_fields)
    qed
  next
    case FetchRejected
    with inv keep [of "fetch_rejected c"] svg_cases(2) [of c] show ?thesis
      by (cases "svgRef c") (auto simp: fetch_rejected_fields blank_def)
  next
    case Refresh
    with keep [of "fetchGraphData c"] show ?thesis
      by (simp add: handleRefresh_def fetchGraphData_fields)
  next
    case ZoomIn
    with keep [of "setZoom handleZoomIn c"] setZoom_svg [of handleZoomIn c] show ?thesis
      by (simp add: setZoom_fields)
  next
    case ZoomOut
    with keep [of "setZoom handleZoomOut c"] setZoom_svg [of handleZoomOut c] show ?thesis
      by (simp add: setZoom_fields)
  next
    case (Gesture f px py)
    show ?thesis
    proof (cases "svgRef c")
      case None
      with Gesture inv show ?thesis by (simp add: on_drawn_def)
    next
      case (Some s)
      with Gesture inv keep [of "c\<lparr> svgRef := Some (zoomBehavior f px py s) \<rparr>"] show ?thesis
        by (cases "drawn s") (simp_all add: on_drawn_def zoomBehavior_def Let_def)
    qed
  next
    case (NodeClick i)
    have "older_stopped (stop_at (simulationRef c) (simulations sys))"
      using stop_at_newest [OF o] r by (simp add: older_stopped_all)
    then have failed: "one_at_a_time (render_failed sys c')"
      if "simulationRef c' = simulationRef c" for c'
      using that by (simp add: render_failed_def one_at_a_time_def current_is_newest_def)
    from NodeClick inv keep [of "c\<lparr> selectedNode := Some (e, i) \<rparr>" for e] failed
    show ?thesis
      by (cases "svgRef c") (auto simp: on_drawn_def click_fields split: option.splits)
  next
    case BackgroundClick
    with inv keep [of "c\<lparr> selectedNode := None \<rparr>"] show ?thesis
      by (cases "svgRef c") (auto simp: on_drawn_def click_fields split: option.splits)
  next
    case Close
    with inv keep [of "c\<lparr> selectedNode := None \<rparr>"] show ?thesis
      by (cases "svgRef c") (auto simp: click_fields)
  next
    case (DragStart active e i)
    show ?thesis
    proof (cases "svgRef c")
      case None
      with DragStart inv show ?thesis by (simp add: on_drawn_def)
    next
      case (Some s)
      show ?thesis
      proof (cases "drawn s = Some e \<and> has_node (simulations sys) e i")
        case False
        with DragStart Some inv show ?thesis
          by (auto simp: on_drawn_def split: option.splits)
      next
        case True
        with d Some r have e: "newest (simulations sys) = Some e" by simp
        then have "\<not> Suc e < length (simulations sys)"
          by (simp add: newest_def split: if_splits)
        then have "older_stopped ((simulations sys)[e := dragstarted active i (simulations sys ! e)])"
          using older_stopped_update [OF o] by simp
        moreover have "current_is_newest
            (sys\<lparr> simulations := (simulations sys)[e := dragstarted active i (simulations sys ! e)] \<rparr>)"
          using n by (simp add: current_is_newest_simulations newest_simps)
        ultimately show ?thesis
          using DragStart Some True by (simp add: on_drawn_def one_at_a_time_def)
      qed
    qed
  next
    case (Drag e i px py)
    with inv show ?thesis by simp
  next
    case (DragEnd active e i px py)
    with inv show ?thesis by simp
  next
    case Frame
    with inv show ?thesis by simp
  next
    case Unmount
    have "older_stopped (stop_at (simulationRef c) (simulations sys))"
      using stop_at_newest [OF o] r by (simp add: older_stopped_all)
    with Unmount show ?thesis
      by (simp add: one_at_a_time_def current_is_newest_def)
  qed
qed

lemma step_one_at_a_time:
  assumes inv: "one_at_a_time sys"
  shows "one_at_a_time (step lib sys ev)"
proof -
  from inv have o: "older_stopped (simulations sys)" and n: "current_is_newest sys"
    by (simp_all add: one_at_a_time_def)
  have upd: "one_at_a_time (sys\<lparr> simulations := (simulations sys)[e := x] \<rparr>)"
    if "running x = running (simulations sys ! e)" "e < length (simulations sys)" for e x
  proof -
    have "Suc e < length (simulations sys) \<longrightarrow> \<not> running x"
      using o that by (simp add: older_stopped_nth)
    from older_stopped_update [OF o this] n show ?thesis
      by (simp add: one_at_a_time_def current_is_newest_simulations newest_simps)
  qed
  have comp: "one_at_a_time (case mounted sys of None \<Rightarrow> sys | Some c \<Rightarrow> component_step lib sys c ev)"
    using inv component_step_one_at_a_time [OF inv] by (cases "mounted sys") simp_all
  show ?thesis
  proof (cases ev)
    case Frame
    have "older_stopped (map (advance lib) (simulations sys))"
      using older_stopped_map [OF o] running_advance by blast
    with n Frame show ?thesis
      by (simp add: one_at_a_time_def current_is_newest_simulations newest_simps)
  next
    case (Drag e i px py)
    with inv upd [of "dragged i px py (simulations sys ! e)" e] show ?thesis
      by (simp add: running_drag has_node_def)
  next
    case (DragEnd active e i px py)
    with inv upd [of "dragended active i px py (simulations sys ! e)" e] show ?thesis
      by (simp add: running_drag has_node_def)
  qed (use comp in \<open>simp_all cong: option.case_cong\<close>)
qed

lemma mount_one_at_a_time: "one_at_a_time mount"
  by (simp add: one_at_a_time_def older_stopped_def current_is_newest_def mount_def newest_def
      fetchGraphData_fields zoom_effect_fields initial_def)

lemma run_one_at_a_time: "one_at_a_time sys \<Longrightarrow> one_at_a_time (run lib sys evs)"
  by (induction evs arbitrary: sys) (simp_all add: step_one_at_a_time)

subsection \<open>Pinned nodes\<close>

lemma integrate_pinned:
  "node_fx (integrate lib n) = node_fx n" "node_fy (integrate lib n) = node_fy n"
  "node_fx n = Some px \<Longrightarrow> node_x (integrate lib n) = px"
  "node_fy n = Some py \<Longrightarrow> node_y (integrate lib n) = py"
  by (simp_all add: integrate_def Let_def split: option.splits)

lemma push_pinned: "node_fx (push p n) = node_fx n" "node_fy (push p n) = node_fy n"
  by (simp_all add: push_def)

lemma apply_forces_pinned:
  "length (apply_forces lib e) = length (sim_nodes e)"
  "i < length (sim_nodes e) \<Longrightarrow> node_fx (apply_forces lib e ! i) = node_fx (sim_nodes e ! i)"
  "i < length (sim_nodes e) \<Longrightarrow> node_fy (apply_forces lib e ! i) = node_fy (sim_nodes e ! i)"
  by (simp_all add: apply_forces_def nth_enumerate_eq push_pinned)

lemma tick_pinned:
  "length (sim_nodes (tick lib e)) = length (sim_nodes e)"
  "i < length (sim_nodes e) \<Longrightarrow> node_fx (sim_nodes (tick lib e) ! i) = node_fx (sim_nodes e ! i)"
  "i < length (sim_nodes e) \<Longrightarrow> node_fy (sim_nodes (tick lib e) ! i) = node_fy (sim_nodes e ! i)"
  "i < length (sim_nodes e) \<Longrightarrow> node_fx (sim_nodes e ! i) = Some px \<Longrightarrow>
     node_x (sim_nodes (tick lib e) ! i) = px"
  "i < length (sim_nodes e) \<Longrightarrow> node_fy (sim_nodes e ! i) = Some py \<Longrightarrow>
     node_y (sim_nodes (tick lib e) ! i) = py"
  by (simp_all add: tick_def apply_forces_pinned integrate_pinned)

lemma advance_nodes:
  "sim_nodes (advance lib e) = (if running e then sim_nodes (tick lib e) else sim_nodes e)"
  by (simp add: advance_def stop_def Let_def)

lemma drag_nodes:
  "length (sim_nodes (dragstarted active j e)) = length (sim_nodes e)"
  "length (sim_nodes (dragged j px py e)) = length (sim_nodes e)"
  "length (sim_nodes (dragended active j px py e)) = length (sim_nodes e)"
  "j \<noteq> i \<Longrightarrow> sim_nodes (dragstarted active j e) ! i = sim_nodes e ! i"
  "j \<noteq> i \<Longrightarrow> sim_nodes (dragged j px py e) ! i = sim_nodes e ! i"
  "j \<noteq> i \<Longrightarrow> sim_nodes (dragended active j px py e) ! i = sim_nodes e ! i"
  by (simp_all add: dragstarted_def dragged_def dragended_def pin_def Let_def restart_def
      set_alphaTarget_def)

lemma stop_at_nodes:
  "e < length es \<Longrightarrow> sim_nodes (stop_at r es ! e) = sim_nodes (es ! e)"
  by (simp add: stop_at_def stop_def nth_list_update split: option.splits)

lemma dragended_pins:
  "has_node (simulations sys) e i \<Longrightarrow> pinned_at e i px py (step lib sys (DragEnd active e i px py))"
  by (simp add: pinned_at_def node_of_def has_node_def dragended_def pin_def Let_def
      set_alphaTarget_def)

lemma step_simulations_same:
  assumes "\<forall>g. ev \<noteq> FetchResolved g" "\<forall>a e i. ev \<noteq> DragStart a e i"
    "\<forall>e i px py. ev \<noteq> Drag e i px py" "\<forall>a e i px py. ev \<noteq> DragEnd a e i px py"
    "ev \<noteq> Frame" "ev \<noteq> Unmount" "\<forall>j. ev \<noteq> NodeClick j"
  shows "simulations (step lib sys ev) = simulations sys"
  using assms
  by (cases ev; cases "mounted sys") (auto simp: on_drawn_def split: option.splits)

lemma step_NodeClick_simulations:
  "simulations (step lib sys (NodeClick j)) = simulations sys \<or>
   (\<exists>r. simulations (step lib sys (NodeClick j)) = stop_at r (simulations sys))"
  by (cases "mounted sys") (auto simp: on_drawn_def render_failed_def split: option.splits)

lemma step_node:
  assumes q: "quiet e i ev" and h: "has_node (simulations sys) e i"
  shows "has_node (simulations (step lib sys ev)) e i \<and>
         node_of (step lib sys ev) e i =
           (if ev = Frame \<and> running (simulations sys ! e)
            then sim_nodes (tick lib (simulations sys ! e)) ! i
            else node_of sys e i)"
proof -
  from h have e: "e < length (simulations sys)" and i: "i < length (sim_nodes (simulations sys ! e))"
    by (simp_all add: has_node_def)
  have same: "has_node es e i \<and> sim_nodes (es ! e) ! i = node_of sys e i"
    if "length es = length (simulations sys)"
      "length (sim_nodes (es ! e)) = length (sim_nodes (simulations sys ! e))"
      "sim_nodes (es ! e) ! i = sim_nodes (simulations sys ! e) ! i" for es
    using that e i by (simp add: has_node_def node_of_def)
  have upd: "has_node ((simulations sys)[e' := x]) e i \<and>
      sim_nodes ((simulations sys)[e' := x] ! e) ! i = node_of sys e i"
    if "e' = e \<longrightarrow> length (sim_nodes x) = length (sim_nodes (simulations sys ! e)) \<and>
          sim_nodes x ! i = sim_nodes (simulations sys ! e) ! i" for e' x
    using that e i by (cases "e' = e") (simp_all add: has_node_def node_of_def)
  show ?thesis
  proof (cases ev)
    case (FetchResolved g)
    with q show ?thesis by simp
  next
    case Frame
    with e i show ?thesis
      by (simp add: has_node_def node_of_def advance_nodes tick_pinned)
  next
    case (Drag e' i' px py)
    with q have "e' = e \<longrightarrow> i' \<noteq> i" by auto
    with upd [of e' "dragged i' px py (simulations sys ! e')"] Drag h show ?thesis
      by (auto simp: node_of_def drag_nodes)
  next
    case (DragEnd active e' i' px py)
    with q have "e' = e \<longrightarrow> i' \<noteq> i" by auto
    with upd [of e' "dragended active i' px py (simulations sys ! e')"] DragEnd h show ?thesis
      by (auto simp: node_of_def drag_nodes)
  next
    case (DragStart active e' i')
    with q have "e' = e \<longrightarrow> i' \<noteq> i" by auto
    with upd [of e' "dragstarted active i' (simulations sys ! e')"] DragStart h show ?thesis
      by (cases "mounted sys")
         (auto simp: node_of_def drag_nodes on_drawn_def split: option.splits)
  next
    case Unmount
    with h e i show ?thesis
      by (cases "mounted sys")
         (auto simp: node_of_def has_node_def length_stop_at stop_at_nodes)
  next
    case FetchRejected
    with h step_simulations_same [of ev lib sys] show ?thesis by (simp add: node_of_def)
  next
    case Refresh
    with h step_simulations_same [of ev lib sys] show ?thesis by (simp add: node_of_def)
  next
    case ZoomIn
    with h step_simulations_same [of ev lib sys] show ?thesis by (simp add: node_of_def)
  next
    case ZoomOut
    with h step_simulations_same [of ev lib sys] show ?thesis by (simp add: node_of_def)
  next
    case (Gesture f px py)
    with h step_simulations_same [of ev lib sys] show ?thesis by (simp add: node_of_def)
  next
    case (NodeClick j)
    with h e i step_NodeClick_simulations [of lib sys j] show ?thesis
      by (auto simp: node_of_def has_node_def length_stop_at stop_at_nodes simp del: step.simps)
  next
    case BackgroundClick
    with h step_simulations_same [of ev lib sys] show ?thesis by (simp add: node_of_def)
  next
    case Close
    with h step_simulations_same [of ev lib sys] show ?thesis by (simp add: node_of_def)
  qed
qed

lemma step_pinned:
  assumes "quiet e i ev" and "pinned_at e i px py sys"
  shows "pinned_at e i px py (step lib sys ev)"
    and "ev = Frame \<and> running (simulations sys ! e) \<or> placed_at e i px py sys \<Longrightarrow>
         placed_at e i px py (step lib sys ev)"
proof -
  from assms(2) have h: "has_node (simulations sys) e i"
    and f: "node_fx (node_of sys e i) = Some px" "node_fy (node_of sys e i) = Some py"
    by (simp_all add: pinned_at_def)
  from h have i: "i < length (sim_nodes (simulations sys ! e))"
    by (simp add: has_node_def)
  note n = step_node [OF assms(1) h, of lib]
  from f have f': "node_fx (sim_nodes (simulations sys ! e) ! i) = Some px"
    "node_fy (sim_nodes (simulations sys ! e) ! i) = Some py"
    by (simp_all add: node_of_def)
  show p: "pinned_at e i px py (step lib sys ev)"
    using n f f' i by (simp add: pinned_at_def tick_pinned del: step.simps)
  show "placed_at e i px py (step lib sys ev)"
    if "ev = Frame \<and> running (simulations sys ! e) \<or> placed_at e i px py sys"
    using that p n f' i
    by (auto simp: placed_at_def tick_pinned simp del: step.simps)
qed

lemma run_pinned:
  "\<forall>ev \<in> set evs. quiet e i ev \<Longrightarrow> pinned_at e i px py sys \<Longrightarrow>
   pinned_at e i px py (run lib sys evs)"
  by (induction evs arbitrary: sys) (simp_all add: step_pinned del: step.simps)

lemma run_placed:
  "\<forall>ev \<in> set evs. quiet e i ev \<Longrightarrow> pinned_at e i px py sys \<Longrightarrow> placed_at e i px py sys \<Longrightarrow>
   placed_at e i px py (run lib sys evs)"
  by (induction evs arbitrary: sys) (simp_all add: step_pinned del: step.simps)

text \<open>
  C1. After a drag of node \<open>i\<close> ends at \<open>(px, py)\<close>, and for as long as the model is not
  rebuilt and the node is not dragged again, the node's pinned position is \<open>(px, py)\<close>;
  from the first tick of its simulation on, its position is exactly \<open>(px, py)\<close>, whatever
  events and ticks follow.
\<close>

theorem dragged_node_stays:
  assumes "has_node (simulations sys) e i"
    and "\<forall>ev \<in> set evs. quiet e i ev" and "\<forall>ev \<in> set evs'. quiet e i ev"
  shows "pinned_at e i px py (run lib (step lib sys (DragEnd active e i px py)) evs) \<and>
         (running (simulations (run lib (step lib sys (DragEnd active e i px py)) evs) ! e) \<longrightarrow>
            placed_at e i px py
              (run lib (step lib sys (DragEnd active e i px py)) (evs @ Frame # evs')))"
proof -
  let ?s1 = "run lib (step lib sys (DragEnd active e i px py)) evs"
  have p: "pinned_at e i px py ?s1"
    using run_pinned [OF assms(2) dragended_pins [OF assms(1)]] .
  have "placed_at e i px py (run lib ?s1 (Frame # evs'))" if r: "running (simulations ?s1 ! e)"
  proof -
    have q: "quiet e i Frame" by simp
    from step_pinned(2) [OF q p] r have "placed_at e i px py (step lib ?s1 Frame)"
      by blast
    moreover from step_pinned(1) [OF q p] have "pinned_at e i px py (step lib ?s1 Frame)" .
    ultimately show ?thesis
      using run_placed [OF assms(3)] by (simp del: step.simps)
  qed
  with p show ?thesis
    by (simp add: run_append del: step.simps run.simps)
qed

theorem dragged_node_stays_witness:
  "has_node (simulations (run sample_library mount
      [FetchResolved sample_graph, DragStart False 0 1, Drag 0 1 50 60])) 0 1 \<and>
   running (simulations (run sample_library mount
      [FetchResolved sample_graph, DragStart False 0 1, Drag 0 1 50 60, DragEnd False 0 1 50 60,
       ZoomIn, DragStart False 0 0, Drag 0 0 5 5]) ! 0) \<and>
   placed_at 0 1 50 60 (run sample_library mount
      [FetchResolved sample_graph, DragStart False 0 1, Drag 0 1 50 60, DragEnd False 0 1 50 60,
       ZoomIn, DragStart False 0 0, Drag 0 0 5 5, Frame, Frame, ZoomOut, Frame])"
proof -
  let ?before = "[FetchResolved sample_graph, DragStart False 0 1, Drag 0 1 50 60]"
  let ?evs = "[ZoomIn, DragStart False 0 0, Drag 0 0 5 5]"
  let ?evs' = "[Frame, ZoomOut, Frame]"
  let ?sys = "run sample_library mount ?before"
  have h: "has_node (simulations ?sys) 0 1"
    by (simp add: model_defs enumerate_eq_zip)
  have q: "\<forall>ev \<in> set ?evs. quiet 0 1 ev" "\<forall>ev \<in> set ?evs'. quiet 0 1 ev"
    by simp_all
  have r: "running (simulations
      (run sample_library (step sample_library ?sys (DragEnd False 0 1 50 60)) ?evs) ! 0)"
    by (simp add: model_defs enumerate_eq_zip)
  from dragged_node_stays [OF h q, of 50 60 sample_library False] r
  have "placed_at 0 1 50 60
      (run sample_library (step sample_library ?sys (DragEnd False 0 1 50 60))
         (?evs @ Frame # ?evs'))"
    by blast
  moreover have "run sample_library (step sample_library ?sys (DragEnd False 0 1 50 60))
         (?evs @ Frame # ?evs') =
      run sample_library mount (?before @ DragEnd False 0 1 50 60 # ?evs @ Frame # ?evs')"
    by (simp only: run_append run.simps)
  moreover have "run sample_library (step sample_library ?sys (DragEnd False 0 1 50 60)) ?evs =
      run sample_library mount (?before @ DragEnd False 0 1 50 60 # ?evs)"
    by (simp only: run_append run.simps)
  ultimately show ?thesis
    using h r by (simp del: step.simps run.simps)
qed

subsection \<open>Stopping\<close>

text \<open>
  C3. \<open>stop\<close> is idempotent, and a stopped engine is unchanged by any number of frames.
  In every state the component can reach, every simulation but the newest is stopped, so
  at most one is running; when a resolved request installs a new model, every earlier
  simulation is stopped; a frame changes no simulation but the newest; unmounting stops
  them all.
\<close>

theorem stop_is_final:
  "(\<forall>e. stop (stop e) = stop e \<and> \<not> running (stop e)) \<and>
   (\<forall>e n. (advance lib ^^ n) (stop e) = stop e) \<and>
   (\<forall>evs. older_stopped (simulations (run lib mount evs))) \<and>
   (\<forall>evs i j. i < length (simulations (run lib mount evs)) \<and>
        j < length (simulations (run lib mount evs)) \<and>
        running (simulations (run lib mount evs) ! i) \<and>
        running (simulations (run lib mount evs) ! j) \<longrightarrow> i = j) \<and>
   (\<forall>evs c g. mounted (run lib mount evs) = Some c \<and> pending c \<noteq> 0 \<longrightarrow>
        length (simulations (step lib (run lib mount evs) (FetchResolved g)))
          = Suc (length (simulations (run lib mount evs))) \<and>
        all_stopped (butlast (simulations (step lib (run lib mount evs) (FetchResolved g))))) \<and>
   (\<forall>evs. butlast (simulations (step lib (run lib mount evs) Frame))
          = butlast (simulations (run lib mount evs))) \<and>
   (\<forall>evs c. mounted (run lib mount evs) = Some c \<longrightarrow>
        all_stopped (simulations (step lib (run lib mount evs) Unmount)))"
proof -
  have idem: "\<forall>e. stop (stop e) = stop e \<and> \<not> running (stop e)"
    by (simp add: stop_idem)
  have halted: "\<forall>e n. (advance lib ^^ n) (stop e) = stop e"
    by (simp add: advance_stopped)
  have inv: "one_at_a_time (run lib mount evs)" for evs
    using run_one_at_a_time [OF mount_one_at_a_time] .
  then have older: "older_stopped (simulations (run lib mount evs))" for evs
    by (simp add: one_at_a_time_def)
  have single: "\<forall>evs i j. i < length (simulations (run lib mount evs)) \<and>
        j < length (simulations (run lib mount evs)) \<and>
        running (simulations (run lib mount evs) ! i) \<and>
        running (simulations (run lib mount evs) ! j) \<longrightarrow> i = j"
  proof (intro allI impI)
    fix evs i j
    let ?es = "simulations (run lib mount evs)"
    assume a: "i < length ?es \<and> j < length ?es \<and> running (?es ! i) \<and> running (?es ! j)"
    with older [of evs] have "\<not> Suc i < length ?es" "\<not> Suc j < length ?es"
      by (auto simp: older_stopped_nth)
    with a show "i = j" by simp
  qed
  have install: "length (simulations (step lib (run lib mount evs) (FetchResolved g)))
          = Suc (length (simulations (run lib mount evs))) \<and>
        all_stopped (butlast (simulations (step lib (run lib mount evs) (FetchResolved g))))"
    if m: "mounted (run lib mount evs) = Some c" "pending c \<noteq> 0" for evs c g
  proof -
    let ?sys = "run lib mount evs"
    have "older_stopped (simulations (step lib ?sys (FetchResolved g)))"
      using older [of "evs @ [FetchResolved g]"] by (simp add: run_append del: step.simps)
    then have o: "all_stopped (butlast (simulations (step lib ?sys (FetchResolved g))))"
      by (simp add: older_stopped_def all_stopped_def)
    obtain s where s: "svgRef (fetch_resolved g c) = Some s"
      using fetch_resolved_fields(9) [of g c] by blast
    have "length (simulations (step lib ?sys (FetchResolved g))) = Suc (length (simulations ?sys))"
      using m s
      by (simp add: graph_effect_def fetch_resolved_fields Let_def length_stop_at
          split: sum.splits)
    with o show ?thesis by simp
  qed
  have frame: "\<forall>evs. butlast (simulations (step lib (run lib mount evs) Frame))
          = butlast (simulations (run lib mount evs))"
  proof
    fix evs
    let ?es = "simulations (run lib mount evs)"
    have "map (advance lib) (butlast ?es) = butlast ?es"
      using older [of evs]
      by (intro map_idI) (auto simp: older_stopped_def list_all_iff advance_idle)
    then show "butlast (simulations (step lib (run lib mount evs) Frame)) = butlast ?es"
      by (simp add: map_butlast)
  qed
  have teardown: "all_stopped (simulations (step lib (run lib mount evs) Unmount))"
    if m: "mounted (run lib mount evs) = Some c" for evs c
  proof -
    from inv [of evs] m have "simulationRef c = newest (simulations (run lib mount evs))"
      by (simp add: one_at_a_time_def current_is_newest_def)
    with stop_at_newest [OF older [of evs]] m show ?thesis
      by (simp add: all_stopped_def)
  qed
  from idem halted older single install frame teardown show ?thesis by blast
qed

theorem stop_is_final_witness:
  "map_option pending (mounted (run sample_library mount [FetchResolved sample_graph, Refresh]))
     = Some 1 \<and>
   running (simulations (run sample_library mount [FetchResolved sample_graph, Refresh]) ! 0) \<and>
   length (simulations (step sample_library
      (run sample_library mount [FetchResolved sample_graph, Refresh]) (FetchResolved sample_graph)))
     = 2 \<and>
   all_stopped (butlast (simulations (step sample_library
      (run sample_library mount [FetchResolved sample_graph, Refresh]) (FetchResolved sample_graph)))) \<and>
   all_stopped (simulations (step sample_library
      (run sample_library mount [FetchResolved sample_graph, Refresh]) Unmount))"
proof -
  let ?sys = "run sample_library mount [FetchResolved sample_graph, Refresh]"
  have "mounted ?sys \<noteq> None"
    by (simp add: model_defs enumerate_eq_zip)
  then obtain c where c: "mounted ?sys = Some c"
    by blast
  have p: "pending c = 1"
    using c by (auto simp: model_defs enumerate_eq_zip)
  have r: "running (simulations ?sys ! 0)" "length (simulations ?sys) = 1"
    by (simp_all add: model_defs enumerate_eq_zip)
  note t = stop_is_final [of sample_library]
  from t c p
  have "length (simulations (step sample_library ?sys (FetchResolved sample_graph)))
          = Suc (length (simulations ?sys)) \<and>
        all_stopped (butlast (simulations (step sample_library ?sys (FetchResolved sample_graph))))"
    by (metis One_nat_def n_not_Suc_n)
  moreover from t c have "all_stopped (simulations (step sample_library ?sys Unmount))"
    by blast
  ultimately show ?thesis
    using c p r by (simp del: step.simps run.simps)
qed


end
